theory Spec2Isabelle
  imports Complex_Main "HOL-Library.Multiset"
begin

section \<open>Numbers and strings of the host language\<close>

text \<open>
  The calendar engine is JavaScript. Integer-valued numbers are modelled as \<^typ>\<open>int\<close>
  (exact as long as they stay inside the safe integer range of a double), and the
  remainder operator \<^verbatim>\<open>%\<close> as the truncated remainder: the result has the sign of the
  dividend. A zero divisor makes \<^verbatim>\<open>%\<close> return NaN, which is \<open>None\<close> in \<open>js_rem\<close>.
\<close>

definition trem :: "int \<Rightarrow> int \<Rightarrow> int" where
  "trem a b = sgn a * (\<bar>a\<bar> mod \<bar>b\<bar>)"

definition js_rem :: "int \<Rightarrow> int \<Rightarrow> int option" where
  "js_rem a b = (if b = 0 then None else Some (trem a b))"

text \<open>\<^verbatim>\<open>String.prototype.trim\<close> on ASCII text: white space is removed at both ends.\<close>

definition is_space :: "char \<Rightarrow> bool" where
  "is_space c \<longleftrightarrow> c \<in> set [CHR 0x09, CHR 0x0A, CHR 0x0B, CHR 0x0C, CHR 0x0D, CHR 0x20]"

definition trim :: "string \<Rightarrow> string" where
  "trim s = rev (dropWhile is_space (rev (dropWhile is_space s)))"

text \<open>\<^verbatim>\<open>str.includes(c)\<close> for a one-character needle.\<close>

definition str_includes :: "string \<Rightarrow> char \<Rightarrow> bool" where
  "str_includes s c \<longleftrightarrow> c \<in> set s"

text \<open>\<^verbatim>\<open>str.replace(/[!+]/g, '')\<close>: every \<open>!\<close> and every \<open>+\<close> is deleted.\<close>

definition strip_marks :: "string \<Rightarrow> string" where
  "strip_marks s = filter (\<lambda>c. c \<noteq> CHR ''!'' \<and> c \<noteq> CHR ''+'') s"

definition is_digit :: "char \<Rightarrow> bool" where
  "is_digit c \<longleftrightarrow> c \<in> set ''0123456789''"

definition digit_val :: "char \<Rightarrow> int" where
  "digit_val c = int (of_char c) - 48"

text \<open>
  \<^verbatim>\<open>parseInt(s, 10)\<close>: leading white space is skipped, one sign is accepted, then the
  longest run of decimal digits is read; with no digit the result is NaN (\<open>None\<close>).
\<close>

definition digits_value :: "string \<Rightarrow> int" where
  "digits_value ds = foldl (\<lambda>a c. 10 * a + digit_val c) 0 ds"

definition parse_unsigned :: "string \<Rightarrow> int option" where
  "parse_unsigned s =
     (let ds = takeWhile is_digit s in if ds = [] then None else Some (digits_value ds))"

definition parseInt :: "string \<Rightarrow> int option" where
  "parseInt s =
     (case dropWhile is_space s of
        [] \<Rightarrow> None
      | c # cs \<Rightarrow>
          if c = CHR ''-'' then map_option uminus (parse_unsigned cs)
          else if c = CHR ''+'' then parse_unsigned cs
          else parse_unsigned (c # cs))"

text \<open>\<^verbatim>\<open>String(n)\<close> for an integer \<open>n\<close>: its decimal numeral, with a minus sign below zero.\<close>

definition digit_char :: "nat \<Rightarrow> char" where
  "digit_char d = ''0123456789'' ! d"

fun digits :: "nat \<Rightarrow> string" where
  "digits n = (if n < 10 then [digit_char n] else digits (n div 10) @ [digit_char (n mod 10)])"

declare digits.simps [simp del]

definition String_of_int :: "int \<Rightarrow> string" where
  "String_of_int n = (if n < 0 then CHR ''-'' # digits (nat (- n)) else digits (nat n))"

text \<open>\<^verbatim>\<open>str.split(',')\<close>.\<close>

fun split_comma :: "string \<Rightarrow> string list" where
  "split_comma [] = [[]]"
| "split_comma (c # cs) =
     (if c = CHR '','' then [] # split_comma cs
      else (case split_comma cs of [] \<Rightarrow> [[c]] | w # ws \<Rightarrow> (c # w) # ws))"

section \<open>Leap year patterns\<close>

record interval_obj =
  interval :: int
  subtracts :: bool
  offset :: int

text \<open>
  \<^verbatim>\<open>parseInterval(intervalStr, offset)\<close>. \<^verbatim>\<open>parseInt(...) || 1\<close> replaces NaN and 0 by 1,
  and \<^verbatim>\<open>Math.max(1, _)\<close> bounds the interval from below, so both \<^verbatim>\<open>%\<close> have a
  non-zero divisor.
\<close>

definition parseInterval :: "string \<Rightarrow> int \<Rightarrow> interval_obj" where
  "parseInterval intervalStr off =
     (let str = trim intervalStr;
          subtracts = str_includes str (CHR ''!'');
          ignoresOffset = str_includes str (CHR ''+'');
          parsed = (case parseInt (strip_marks str) of
                      None \<Rightarrow> 1
                    | Some v \<Rightarrow> if v = 0 then 1 else v);
          interval = max 1 parsed;
          normalizedOffset =
            (if interval = 1 \<or> ignoresOffset then 0
             else trem (trem (interval + off) interval + interval) interval)
      in \<lparr>interval = interval, subtracts = subtracts, offset = normalizedOffset\<rparr>)"

text \<open>
  \<^verbatim>\<open>parsePattern(pattern, offset)\<close>; the argument is a string here, and the empty
  string is falsy.
\<close>

definition parsePattern :: "string \<Rightarrow> int \<Rightarrow> interval_obj list" where
  "parsePattern pattern off =
     (if pattern = [] then []
      else map (\<lambda>s. parseInterval s off)
             (filter (\<lambda>s. length s > 0) (map trim (split_comma pattern))))"

datatype vote = Allow | Deny | Abstain

definition voteOnYear :: "interval_obj \<Rightarrow> int \<Rightarrow> bool \<Rightarrow> vote" where
  "voteOnYear intervalObj year yearZeroExists =
     (let m = year - offset intervalObj;
          m = (if \<not> yearZeroExists \<and> year < 0 then m + 1 else m)
      in if js_rem m (interval intervalObj) = Some 0
         then (if subtracts intervalObj then Deny else Allow)
         else Abstain)"

definition tally :: "int \<Rightarrow> vote \<Rightarrow> int" where
  "tally acc v = (case v of Allow \<Rightarrow> acc + 1 | Deny \<Rightarrow> acc - 1 | Abstain \<Rightarrow> acc)"

definition intersectsYear :: "interval_obj list \<Rightarrow> int \<Rightarrow> bool \<Rightarrow> bool" where
  "intersectsYear intervals year yearZeroExists =
     (if intervals = [] then False
      else
        let votes = map (\<lambda>i. voteOnYear i year yearZeroExists) intervals;
            total = foldl tally 0 votes
        in total > 0)"

text \<open>The weight of a vote, and the sum of the weights of all votes on a year.\<close>

definition vote_weight :: "vote \<Rightarrow> int" where
  "vote_weight v = (case v of Allow \<Rightarrow> 1 | Deny \<Rightarrow> - 1 | Abstain \<Rightarrow> 0)"

definition vote_sum :: "interval_obj list \<Rightarrow> int \<Rightarrow> bool \<Rightarrow> int" where
  "vote_sum intervals year yearZeroExists =
     sum_list (map (\<lambda>i. vote_weight (voteOnYear i year yearZeroExists)) intervals)"

text \<open>
  The leap year configuration object. Every field may be absent; \<open>cfg_leapStart\<close> and
  \<open>cfg_leapInterval\<close> are the legacy names the code falls back to.
\<close>

record leap_config =
  cfg_rule :: "string option"
  cfg_interval :: "int option"
  cfg_leapInterval :: "int option"
  cfg_start :: "int option"
  cfg_leapStart :: "int option"
  cfg_pattern :: "string option"

definition nullish :: "'a option \<Rightarrow> 'a option \<Rightarrow> 'a option" where
  "nullish a b = (case a of Some v \<Rightarrow> Some v | None \<Rightarrow> b)"

definition isLeapYear :: "leap_config option \<Rightarrow> int \<Rightarrow> bool \<Rightarrow> bool" where
  "isLeapYear leapYearConfig year yearZeroExists =
     (case leapYearConfig of
        None \<Rightarrow> False
      | Some cfg \<Rightarrow>
          let rule = (case cfg_rule cfg of None \<Rightarrow> ''none''
                      | Some r \<Rightarrow> if r = [] then ''none'' else r);
              start = (case nullish (cfg_start cfg) (cfg_leapStart cfg) of
                         None \<Rightarrow> 0 | Some s \<Rightarrow> s)
          in if rule = ''none'' then False
             else if rule = ''simple'' then
               (case nullish (cfg_interval cfg) (cfg_leapInterval cfg) of
                  None \<Rightarrow> False
                | Some i \<Rightarrow>
                    if i = 0 \<or> i \<le> 0 then False
                    else intersectsYear [parseInterval (String_of_int i) start] year yearZeroExists)
             else if rule = ''gregorian'' then
               intersectsYear (parsePattern ''400,!100,4'' start) year yearZeroExists
             else if rule = ''custom'' then
               (case cfg_pattern cfg of
                  None \<Rightarrow> False
                | Some p \<Rightarrow>
                    if p = [] then False
                    else intersectsYear (parsePattern p start) year yearZeroExists)
             else False)"

section \<open>The calendar data model\<close>

text \<open>
  The fields of the calendar that the resolvers read. \<open>monthValues\<close> is
  \<^verbatim>\<open>this.months?.values\<close>, which the schema allows to be null; reading an element of
  a null array raises a \<^verbatim>\<open>TypeError\<close>.
\<close>

datatype js_error = TypeError

record month =
  days :: int
  leapDays :: "int option"

record era =
  era_name :: string
  era_abbreviation :: string
  startYear :: int
  endYear :: "int option"
  era_format :: "string option"
  era_template :: "string option"

record cycle =
  cycle_name :: string
  cycle_length :: int
  cycle_offset :: int
  basedOn :: string
  entries :: "string list"

record components =
  c_year :: int
  c_month :: nat
  c_dayOfMonth :: int
  c_hour :: int
  c_minute :: int
  c_second :: int

text \<open>
  A number that may fail \<^verbatim>\<open>Number.isFinite\<close>: \<open>NonFinite\<close> stands for NaN and for both
  infinities, which the moon code only ever tests with \<^verbatim>\<open>Number.isFinite\<close>.
\<close>

datatype jsnum = Fin int | NonFinite

record phase =
  phase_name :: string
  risingName :: "string option"
  fadingName :: "string option"
  icon :: "string option"

text \<open>
  The \<open>phases\<close> of a moon are \<open>None\<close> when the moon object has no \<open>phases\<close> array at all
  (\<^verbatim>\<open>moon.phases\<close> is \<^verbatim>\<open>undefined\<close>), which the code allows for with \<^verbatim>\<open>?.\<close> in places.
\<close>

record moon =
  moon_name :: string
  cycleLength :: jsnum
  cycleDayAdjust :: jsnum
  phases :: "phase list option"

record daylight_config =
  enabled :: bool
  shortestDay :: real
  longestDay :: real
  winterSolstice :: int
  summerSolstice :: int

record calendar =
  monthValues :: "month list option"
  yearZero :: "int option"
  eras :: "era list"
  cycles :: "cycle list"
  moons :: "moon list"
  hoursPerDay :: real
  minutesPerHour :: real
  secondsPerMinute :: real
  daysPerYear :: "int option"
  daylight :: "daylight_config option"

text \<open>The host's localisation functions \<^verbatim>\<open>game.i18n.localize\<close> and \<^verbatim>\<open>game.i18n.format\<close>.\<close>

record i18n =
  localize :: "string \<Rightarrow> string"
  format_phase :: "string \<Rightarrow> string \<Rightarrow> string"

text \<open>\<^verbatim>\<open>xs[i]\<close> on an array: \<^verbatim>\<open>undefined\<close> out of range.\<close>

definition nth_opt :: "'a list \<Rightarrow> nat \<Rightarrow> 'a option" where
  "nth_opt xs i = (if i < length xs then Some (xs ! i) else None)"

text \<open>
  The day of the year (0-indexed): the loop
  \<^verbatim>\<open>for (i = 0; i < components.month; i++) dayOfYear += this.months.values[i]?.days ?? 0\<close>.
\<close>

definition dayOfYear :: "calendar \<Rightarrow> components \<Rightarrow> js_error + int" where
  "dayOfYear cal c =
     (if c_month c = 0 then Inr (c_dayOfMonth c)
      else case monthValues cal of
             None \<Rightarrow> Inl TypeError
           | Some ms \<Rightarrow>
               Inr (foldl (\<lambda>acc i. acc + (case nth_opt ms i of None \<Rightarrow> 0 | Some m \<Rightarrow> days m))
                      (c_dayOfMonth c) [0..<c_month c]))"

definition displayYear :: "calendar \<Rightarrow> components \<Rightarrow> int" where
  "displayYear cal c = c_year c + (case yearZero cal of None \<Rightarrow> 0 | Some z \<Rightarrow> z)"

section \<open>Eras\<close>

text \<open>
  \<^verbatim>\<open>[...xs].sort(cmp)\<close>: the built-in sort is stable, and it sorts a copy, so the stored
  list is not changed. It is modelled as a stable insertion sort with the comparator.
\<close>

fun insert_by :: "('a \<Rightarrow> 'a \<Rightarrow> int) \<Rightarrow> 'a \<Rightarrow> 'a list \<Rightarrow> 'a list" where
  "insert_by cmp x [] = [x]"
| "insert_by cmp x (y # ys) = (if cmp x y \<le> 0 then x # y # ys else y # insert_by cmp x ys)"

definition js_sort :: "('a \<Rightarrow> 'a \<Rightarrow> int) \<Rightarrow> 'a list \<Rightarrow> 'a list" where
  "js_sort cmp xs = foldr (insert_by cmp) xs []"

record era_match =
  em_name :: string
  em_abbreviation :: string
  em_format :: string
  em_template :: "string option"
  yearInEra :: int

text \<open>The object both return statements build; only \<open>yearInEra\<close> differs.\<close>

definition era_result :: "era \<Rightarrow> int \<Rightarrow> era_match" where
  "era_result e y =
     \<lparr>em_name = era_name e,
      em_abbreviation = era_abbreviation e,
      em_format = (case era_format e of None \<Rightarrow> ''suffix''
                   | Some f \<Rightarrow> if f = [] then ''suffix'' else f),
      em_template = (case era_template e of None \<Rightarrow> None
                     | Some t \<Rightarrow> if t = [] then None else Some t),
      yearInEra = y\<rparr>"

definition era_covers :: "int \<Rightarrow> era \<Rightarrow> bool" where
  "era_covers dy e \<longleftrightarrow>
     dy \<ge> startYear e \<and> (case endYear e of None \<Rightarrow> True | Some y \<Rightarrow> dy \<le> y)"

fun era_loop :: "era list \<Rightarrow> int \<Rightarrow> era_match option" where
  "era_loop [] dy = None"
| "era_loop (e # es) dy =
     (if era_covers dy e then Some (era_result e (dy - startYear e + 1)) else era_loop es dy)"

definition sortedEras :: "era list \<Rightarrow> era list" where
  "sortedEras es = js_sort (\<lambda>a b. startYear b - startYear a) es"

definition getCurrentEra :: "calendar \<Rightarrow> components \<Rightarrow> era_match option" where
  "getCurrentEra cal c =
     (if eras cal = [] then None
      else
        let dy = displayYear cal c in
        case era_loop (sortedEras (eras cal)) dy of
          Some r \<Rightarrow> Some r
        | None \<Rightarrow> (case eras cal of [] \<Rightarrow> None | e # _ \<Rightarrow> Some (era_result e dy)))"

section \<open>Cycles\<close>

text \<open>
  \<^verbatim>\<open>_getCycleEpochValues\<close>. The absolute day count comes from the host framework's
  \<^verbatim>\<open>componentsToTime\<close> and is a parameter, \<open>totalDays\<close>.
\<close>

record epoch_values =
  ev_year :: int
  ev_eraYear :: int
  ev_month :: int
  ev_monthDay :: int
  ev_day :: int
  ev_yearDay :: int

definition getCycleEpochValues ::
    "calendar \<Rightarrow> components \<Rightarrow> int \<Rightarrow> js_error + epoch_values" where
  "getCycleEpochValues cal c totalDays =
     (case dayOfYear cal c of
        Inl err \<Rightarrow> Inl err
      | Inr doy \<Rightarrow>
          let dy = displayYear cal c;
              eraYear = (case getCurrentEra cal c of None \<Rightarrow> dy | Some e \<Rightarrow> yearInEra e)
          in Inr \<lparr>ev_year = dy, ev_eraYear = eraYear, ev_month = int (c_month c),
                  ev_monthDay = c_dayOfMonth c, ev_day = totalDays, ev_yearDay = doy\<rparr>)"

text \<open>
  \<^verbatim>\<open>epochValues[cycle.basedOn] ?? 0\<close>. The schema restricts \<open>basedOn\<close> to the six keys;
  any other key has no epoch value and reads as \<open>0\<close>.
\<close>

definition epoch_lookup :: "epoch_values \<Rightarrow> string \<Rightarrow> int" where
  "epoch_lookup ev k =
     (if k = ''year'' then ev_year ev
      else if k = ''eraYear'' then ev_eraYear ev
      else if k = ''month'' then ev_month ev
      else if k = ''monthDay'' then ev_monthDay ev
      else if k = ''day'' then ev_day ev
      else if k = ''yearDay'' then ev_yearDay ev
      else 0)"

text \<open>\<^verbatim>\<open>Math.ceil(a / b)\<close> for integers with \<open>b \<noteq> 0\<close>.\<close>

definition ceil_div :: "int \<Rightarrow> int \<Rightarrow> int" where
  "ceil_div a b = - ((- a) div b)"

text \<open>
  The index of the current entry of one cycle with at least one entry. A cycle length
  of \<open>0\<close> divides by zero and makes the index NaN, which is \<open>None\<close>.
\<close>

definition cycleIndex :: "int \<Rightarrow> cycle \<Rightarrow> int option" where
  "cycleIndex epochValue cy =
     (let n = int (length (entries cy)) in
      if cycle_length cy = 0 then None
      else
        let cycleNum = epochValue div cycle_length cy;
            cycleNum = (if cycleNum < 0 then cycleNum + ceil_div \<bar>epochValue\<bar> n * n
                        else cycleNum);
            cycleIndex = trem (cycleNum + cycle_offset cy div cycle_length cy) n;
            normalizedIndex = trem (trem cycleIndex n + n) n
        in Some normalizedIndex)"

record cycle_value =
  cycleName :: string
  entryName :: string
  index :: "int option"

text \<open>
  The \<open>values\<close> array of \<^verbatim>\<open>getCycleValues\<close>: one element for every cycle that has
  entries, in definition order. The \<open>text\<close> field, rendered through the host's
  localisation, is not part of the model.
\<close>

definition cycle_entry :: "epoch_values \<Rightarrow> cycle \<Rightarrow> cycle_value" where
  "cycle_entry ev cy =
     (let normalizedIndex = cycleIndex (epoch_lookup ev (basedOn cy)) cy;
          entry = (case normalizedIndex of
                     None \<Rightarrow> None
                   | Some i \<Rightarrow> if 0 \<le> i then nth_opt (entries cy) (nat i) else None)
      in \<lparr>cycleName = cycle_name cy,
          entryName = (case entry of None \<Rightarrow> [] | Some nm \<Rightarrow> nm),
          index = normalizedIndex\<rparr>)"

fun cycles_loop :: "epoch_values \<Rightarrow> cycle list \<Rightarrow> cycle_value list" where
  "cycles_loop ev [] = []"
| "cycles_loop ev (cy # cys) =
     (if entries cy = [] then cycles_loop ev cys
      else cycle_entry ev cy # cycles_loop ev cys)"

definition getCycleValues ::
    "calendar \<Rightarrow> components \<Rightarrow> int \<Rightarrow> js_error + cycle_value list" where
  "getCycleValues cal c totalDays =
     (if cycles cal = [] then Inr []
      else case getCycleEpochValues cal c totalDays of
             Inl err \<Rightarrow> Inl err
           | Inr ev \<Rightarrow> Inr (cycles_loop ev (cycles cal)))"

section \<open>Moon phases\<close>

text \<open>
  \<^verbatim>\<open>#buildPhaseDayDistribution(cycleLength, numPhases)\<close>. The loop over the eight phases
  carries the distribution built so far and the number of secondary phases seen.
\<close>

function dist_loop :: "nat \<Rightarrow> int \<Rightarrow> int \<Rightarrow> int \<Rightarrow> int \<Rightarrow> int list \<Rightarrow> int list" where
  "dist_loop i primaryDays secondaryDays extraDays extraAssigned distribution =
     (if i < 8 then
        (if i = 0 \<or> i = 4 then
           dist_loop (i + 1) primaryDays secondaryDays extraDays extraAssigned
             (distribution @ [primaryDays])
         else
           let extra = (if extraAssigned < extraDays then 1 else 0) in
           dist_loop (i + 1) primaryDays secondaryDays extraDays (extraAssigned + 1)
             (distribution @ [secondaryDays + extra]))
      else distribution)"
  by pat_completeness auto
termination
  by (relation "measure (\<lambda>(i, _). 8 - i)") auto

declare dist_loop.simps [simp del]

definition buildPhaseDayDistribution :: "int \<Rightarrow> nat \<Rightarrow> int list" where
  "buildPhaseDayDistribution cycleLen numPhases =
     (if numPhases \<noteq> 8 then
        let baseDays = cycleLen div int numPhases;
            remainder = trem cycleLen (int numPhases)
        in map (\<lambda>i. baseDays + (if int i < remainder then 1 else 0)) [0..<numPhases]
      else
        let primaryDays = cycleLen div 8;
            totalPrimaryDays = primaryDays * 2;
            remainingDays = cycleLen - totalPrimaryDays;
            secondaryDays = remainingDays div 6;
            extraDays = trem remainingDays 6
        in dist_loop 0 primaryDays secondaryDays extraDays 0 [])"

text \<open>
  The walk over the cumulative sums: the index of the first phase whose span holds
  \<open>dayIndex\<close>, with the offset into that phase; \<open>None\<close> when the loop ends without a
  \<^verbatim>\<open>break\<close>.
\<close>

fun find_phase :: "int \<Rightarrow> int list \<Rightarrow> int \<Rightarrow> nat \<Rightarrow> (nat \<times> int) option" where
  "find_phase dayIndex [] cumulativeDays i = None"
| "find_phase dayIndex (d # ds) cumulativeDays i =
     (if dayIndex < cumulativeDays + d then Some (i, dayIndex - cumulativeDays)
      else find_phase dayIndex ds (cumulativeDays + d) (i + 1))"

text \<open>A string that is present and not empty is truthy.\<close>

definition truthy :: "string option \<Rightarrow> string option" where
  "truthy s = (case s of None \<Rightarrow> None | Some v \<Rightarrow> if v = [] then None else Some v)"

definition getSubPhaseName :: "i18n \<Rightarrow> phase \<Rightarrow> int \<Rightarrow> int option \<Rightarrow> string" where
  "getSubPhaseName t ph dayWithinPhase phaseDuration =
     (case phaseDuration of
        None \<Rightarrow> localize t (phase_name ph)
      | Some d \<Rightarrow>
          if d \<le> 1 then localize t (phase_name ph)
          else
            let third = (of_int d :: rat) / 3 in
            if of_int dayWithinPhase < third then
              (case truthy (risingName ph) of
                 Some r \<Rightarrow> localize t r
               | None \<Rightarrow> format_phase t ''CALENDARIA.MoonPhase.SubPhase.Rising''
                           (localize t (phase_name ph)))
            else if of_int dayWithinPhase \<ge> of_int d - third then
              (case truthy (fadingName ph) of
                 Some f \<Rightarrow> localize t f
               | None \<Rightarrow> format_phase t ''CALENDARIA.MoonPhase.SubPhase.Fading''
                           (localize t (phase_name ph)))
            else localize t (phase_name ph))"

text \<open>
  The result object. The guard's fallback object has no \<open>phaseIndex\<close>,
  \<open>dayWithinPhase\<close> and \<open>phaseDuration\<close>; they are \<open>None\<close> there.
\<close>

record moon_phase =
  mp_name :: string
  subPhaseName :: string
  mp_icon :: string
  position :: rat
  dayInCycle :: int
  phaseIndex :: "nat option"
  dayWithinPhase :: "int option"
  phaseDuration :: "int option"

definition icon_or_empty :: "phase \<Rightarrow> string" where
  "icon_or_empty ph = (case icon ph of None \<Rightarrow> [] | Some s \<Rightarrow> s)"

definition js_sub :: "jsnum \<Rightarrow> jsnum \<Rightarrow> jsnum" where
  "js_sub a b = (case (a, b) of (Fin x, Fin y) \<Rightarrow> Fin (x - y) | _ \<Rightarrow> NonFinite)"

text \<open>
  The object returned by the guard against invalid calculations:
  \<^verbatim>\<open>moon.phases?.[0] ? {...} : null\<close>.
\<close>

definition moon_fallback :: "moon \<Rightarrow> moon_phase option" where
  "moon_fallback m =
     (case (case phases m of None \<Rightarrow> None | Some ps \<Rightarrow> nth_opt ps 0) of
        None \<Rightarrow> None
      | Some p \<Rightarrow>
          Some \<lparr>mp_name = phase_name p, subPhaseName = phase_name p, mp_icon = icon_or_empty p,
                position = 0, dayInCycle = 0, phaseIndex = None, dayWithinPhase = None,
                phaseDuration = None\<rparr>)"

text \<open>
  \<^verbatim>\<open>getMoonPhase(moonIndex, time)\<close>. \<open>currentDays\<close> and \<open>referenceDays\<close> are the two
  results of \<^verbatim>\<open>_componentsToDays\<close>, which goes through the host framework's
  \<^verbatim>\<open>componentsToTime\<close>. The number of phases is read as \<^verbatim>\<open>moon.phases?.length || 8\<close>,
  but the matched phase as \<^verbatim>\<open>moon.phases[phaseArrayIndex] || moon.phases?.[0]\<close>: its first
  operand indexes the array without a guard and raises a \<^verbatim>\<open>TypeError\<close> when the moon
  has no \<open>phases\<close> array.
\<close>

definition getMoonPhase ::
    "calendar \<Rightarrow> i18n \<Rightarrow> nat \<Rightarrow> jsnum \<Rightarrow> jsnum \<Rightarrow> js_error + moon_phase option" where
  "getMoonPhase cal t moonIndex currentDays referenceDays =
     (case nth_opt (moons cal) moonIndex of
        None \<Rightarrow> Inr None
      | Some m \<Rightarrow>
          if monthValues cal = None then Inr None
          else
            (case (js_sub currentDays referenceDays, cycleLength m) of
               (Fin daysSinceReference, Fin len) \<Rightarrow>
                 if len \<le> 0 then Inr (moon_fallback m)
                 else
                   let adj = (case cycleDayAdjust m of Fin a \<Rightarrow> a | NonFinite \<Rightarrow> 0);
                       daysIntoCycleRaw = trem (trem daysSinceReference len + len) len + adj;
                       daysIntoCycle = trem (trem daysIntoCycleRaw len + len) len;
                       normalizedPosition = (of_int daysIntoCycle :: rat) / of_int len;
                       numPhases = (case phases m of
                                      None \<Rightarrow> 8
                                    | Some ps \<Rightarrow> if length ps = 0 then 8 else length ps);
                       phaseDays = buildPhaseDayDistribution len numPhases;
                       dayIndex = daysIntoCycle;
                       found = (case find_phase dayIndex phaseDays 0 0 of
                                  None \<Rightarrow> (0, 0) | Some r \<Rightarrow> r);
                       phaseArrayIndex = fst found;
                       dayWithin = snd found
                   in (case phases m of
                         None \<Rightarrow> Inl TypeError
                       | Some ps \<Rightarrow>
                           let matchedPhase = (case nth_opt ps phaseArrayIndex of
                                                 Some p \<Rightarrow> Some p
                                               | None \<Rightarrow> nth_opt ps 0)
                           in (case matchedPhase of
                                 None \<Rightarrow> Inr None
                               | Some mp \<Rightarrow>
                                   let duration = nth_opt phaseDays phaseArrayIndex in
                                   Inr (Some \<lparr>mp_name = phase_name mp,
                                          subPhaseName = getSubPhaseName t mp dayWithin duration,
                                          mp_icon = icon_or_empty mp,
                                          position = normalizedPosition,
                                          dayInCycle = dayIndex,
                                          phaseIndex = Some phaseArrayIndex,
                                          dayWithinPhase = Some dayWithin,
                                          phaseDuration = duration\<rparr>)))
             | _ \<Rightarrow> Inr (moon_fallback m)))"

section \<open>Daylight\<close>

text \<open>
  Hours are real numbers here: rounding of floating point arithmetic is not modelled.
  A result that is NaN or infinite is \<open>None\<close>; it arises from a division by zero only.
\<close>

definition hoursOfDay :: "calendar \<Rightarrow> components \<Rightarrow> real option" where
  "hoursOfDay cal c =
     (if secondsPerMinute cal = 0 \<or> minutesPerHour cal = 0 then None
      else
        let minutes = real_of_int (c_minute c) + real_of_int (c_second c) / secondsPerMinute cal
        in Some (real_of_int (c_hour c) + minutes / minutesPerHour cal))"

definition getDaylightHoursForDay :: "calendar \<Rightarrow> components \<Rightarrow> js_error + real option" where
  "getDaylightHoursForDay cal c =
     (case (case daylight cal of None \<Rightarrow> None | Some d \<Rightarrow> if enabled d then Some d else None) of
        None \<Rightarrow> Inr (Some (hoursPerDay cal * 0.5))
      | Some d \<Rightarrow>
          (case dayOfYear cal c of
             Inl err \<Rightarrow> Inl err
           | Inr doy \<Rightarrow>
               let perYear = (case daysPerYear cal of None \<Rightarrow> 365 | Some n \<Rightarrow> n) in
               (case (js_rem (doy - winterSolstice d + perYear) perYear,
                      js_rem (summerSolstice d - winterSolstice d + perYear) perYear) of
                  (Some daysSinceWinter, Some daysBetweenSolstices) \<Rightarrow>
                    if daysSinceWinter \<le> daysBetweenSolstices \<and> daysBetweenSolstices = 0
                    then Inr None
                    else
                      let progress =
                            (if daysSinceWinter \<le> daysBetweenSolstices
                             then real_of_int daysSinceWinter / real_of_int daysBetweenSolstices
                             else
                               let daysSinceSummer = daysSinceWinter - daysBetweenSolstices;
                                   daysWinterToSummer = perYear - daysBetweenSolstices
                               in 1 - real_of_int daysSinceSummer / real_of_int daysWinterToSummer);
                          cosineProgress = (1 - cos (progress * pi)) / 2
                      in Inr (Some (shortestDay d + (longestDay d - shortestDay d) * cosineProgress))
                | _ \<Rightarrow> Inr None)))"

definition sunrise :: "calendar \<Rightarrow> components \<Rightarrow> js_error + real option" where
  "sunrise cal c =
     (case getDaylightHoursForDay cal c of
        Inl err \<Rightarrow> Inl err
      | Inr daylightHrs \<Rightarrow>
          let midday = hoursPerDay cal / 2
          in Inr (map_option (\<lambda>h. midday - h / 2) daylightHrs))"

definition sunset :: "calendar \<Rightarrow> components \<Rightarrow> js_error + real option" where
  "sunset cal c =
     (case getDaylightHoursForDay cal c of
        Inl err \<Rightarrow> Inl err
      | Inr daylightHrs \<Rightarrow>
          let midday = hoursPerDay cal / 2
          in Inr (map_option (\<lambda>h. midday + h / 2) daylightHrs))"

definition daylightHours :: "calendar \<Rightarrow> components \<Rightarrow> js_error + real option" where
  "daylightHours cal c =
     (case sunset cal c of
        Inl err \<Rightarrow> Inl err
      | Inr ss \<Rightarrow>
          (case sunrise cal c of
             Inl err \<Rightarrow> Inl err
           | Inr sr \<Rightarrow>
               Inr (case (ss, sr) of (Some a, Some b) \<Rightarrow> Some (a - b) | _ \<Rightarrow> None)))"

definition progressNight :: "calendar \<Rightarrow> components \<Rightarrow> js_error + real option" where
  "progressNight cal c =
     (case daylightHours cal c of
        Inl err \<Rightarrow> Inl err
      | Inr dh \<Rightarrow>
          (case sunset cal c of
             Inl err \<Rightarrow> Inl err
           | Inr ss \<Rightarrow>
               Inr (case (dh, hoursOfDay cal c, ss) of
                      (Some daylightHrs, Some hour0, Some sunsetHour) \<Rightarrow>
                        let hour = (if hour0 < daylightHrs then hour0 + hoursPerDay cal else hour0)
                        in if daylightHrs = 0 then None
                           else Some ((hour - sunsetHour) / daylightHrs)
                    | _ \<Rightarrow> None)))"

section \<open>A calendar to run the resolvers on\<close>

text \<open>
  A 24 hour day, twelve months of 30 days, no eras, cycles or moons, static daylight.
  The examples below fill in what they need.
\<close>

definition plain_calendar :: calendar where
  "plain_calendar =
     \<lparr>monthValues = Some (replicate 12 \<lparr>days = 30, leapDays = None\<rparr>),
      yearZero = None, eras = [], cycles = [], moons = [],
      hoursPerDay = 24, minutesPerHour = 60, secondsPerMinute = 60,
      daysPerYear = Some 360, daylight = None\<rparr>"

definition midnight :: components where
  "midnight = \<lparr>c_year = 0, c_month = 0, c_dayOfMonth = 0, c_hour = 0, c_minute = 0, c_second = 0\<rparr>"

definition plain_i18n :: i18n where
  "plain_i18n = \<lparr>localize = (\<lambda>s. s), format_phase = (\<lambda>k p. k @ '' '' @ p)\<rparr>"

definition age :: "int \<Rightarrow> int option \<Rightarrow> era" where
  "age start end_year =
     \<lparr>era_name = ''Age'', era_abbreviation = ''A'', startYear = start, endYear = end_year,
      era_format = None, era_template = None\<rparr>"

definition zodiac :: "int \<Rightarrow> cycle" where
  "zodiac len =
     \<lparr>cycle_name = ''Zodiac'', cycle_length = len, cycle_offset = 0, basedOn = ''month'',
      entries = [''Aries'', ''Taurus'', ''Gemini'', ''Cancer'', ''Leo'', ''Virgo'', ''Libra'',
                 ''Scorpio'', ''Sagittarius'', ''Capricorn'', ''Aquarius'', ''Pisces'']\<rparr>"

definition luna :: "jsnum \<Rightarrow> phase list \<Rightarrow> moon" where
  "luna len ps =
     \<lparr>moon_name = ''Luna'', cycleLength = len, cycleDayAdjust = Fin 0, phases = Some ps\<rparr>"

definition new_moon :: phase where
  "new_moon = \<lparr>phase_name = ''New Moon'', risingName = None, fadingName = None,
                icon = Some ''new.svg''\<rparr>"

definition solstices :: daylight_config where
  "solstices = \<lparr>enabled = True, shortestDay = 8, longestDay = 16, winterSolstice = 0,
                 summerSolstice = 180\<rparr>"

section \<open>Decimal numerals are read back by \<open>parseInt\<close>\<close>


lemma digit_char_props:
  assumes "d < 10"
  shows "is_digit (digit_char d)" "digit_val (digit_char d) = int d"
    "\<not> is_space (digit_char d)" "digit_char d \<noteq> CHR ''!''" "digit_char d \<noteq> CHR ''+''"
    "digit_char d \<noteq> CHR ''-''"
proof -
  from assms have "d \<in> {0,1,2,3,4,5,6,7,8,9}" by auto
  then show "is_digit (digit_char d)" "digit_val (digit_char d) = int d"
    "\<not> is_space (digit_char d)" "digit_char d \<noteq> CHR ''!''" "digit_char d \<noteq> CHR ''+''"
    "digit_char d \<noteq> CHR ''-''"
    by (auto simp: is_digit_def digit_char_def digit_val_def is_space_def)
qed

lemma digits_all:
  "c \<in> set (digits n) \<Longrightarrow> is_digit c \<and> \<not> is_space c \<and> c \<noteq> CHR ''!'' \<and> c \<noteq> CHR ''+'' \<and> c \<noteq> CHR ''-''"
proof (induction n arbitrary: c rule: digits.induct)
  case (1 n)
  show ?case
  proof (cases "n < 10")
    case True
    with "1.prems" have "c = digit_char n" by (subst (asm) digits.simps) simp
    with True show ?thesis using digit_char_props[of n] by simp
  next
    case False
    with "1.prems" have "c \<in> set (digits (n div 10)) \<or> c = digit_char (n mod 10)"
      by (subst (asm) digits.simps) auto
    then show ?thesis
    proof
      assume "c \<in> set (digits (n div 10))"
      with "1.IH"[OF False] show ?thesis by blast
    next
      assume "c = digit_char (n mod 10)"
      then show ?thesis using digit_char_props[of "n mod 10"] by simp
    qed
  qed
qed

lemma digits_nonempty: "digits n \<noteq> []"
  by (subst digits.simps) simp

lemma digits_small: "n < 10 \<Longrightarrow> digits n = [digit_char n]"
  by (subst digits.simps) simp

lemma digits_value_snoc: "digits_value (ds @ [c]) = 10 * digits_value ds + digit_val c"
  by (simp add: digits_value_def)

lemma digits_value_digits: "digits_value (digits n) = int n"
proof (induction n rule: digits.induct)
  case (1 n)
  show ?case
  proof (cases "n < 10")
    case True
    then show ?thesis using digit_char_props(2)[of n] by (simp add: digits_small digits_value_def)
  next
    case False
    have "digits n = digits (n div 10) @ [digit_char (n mod 10)]"
      using False by (subst digits.simps) simp
    then have "digits_value (digits n) = 10 * int (n div 10) + int (n mod 10)"
      using "1.IH"[OF False] digit_char_props(2)[of "n mod 10"]
      by (simp add: digits_value_snoc)
    also have "\<dots> = int n" by (simp add: zdiv_int zmod_int)
    finally show ?thesis .
  qed
qed

lemma parse_unsigned_digits: "parse_unsigned (digits n) = Some (int n)"
proof -
  have tw: "takeWhile is_digit (digits n) = digits n"
    using digits_all by (simp add: takeWhile_eq_all_conv)
  show ?thesis
    unfolding parse_unsigned_def Let_def tw
    by (simp add: digits_nonempty digits_value_digits)
qed

lemma parseInt_String_of_int: "parseInt (String_of_int n) = Some n"
proof (cases "n < 0")
  case True
  have "\<not> is_space (CHR ''-'')" by (simp add: is_space_def)
  then show ?thesis using True
    by (simp add: parseInt_def String_of_int_def parse_unsigned_digits)
next
  case False
  obtain c cs where cs: "digits (nat n) = c # cs"
    using digits_nonempty[of "nat n"] by (cases "digits (nat n)") auto
  then have "c \<in> set (digits (nat n))" by simp
  from digits_all[OF this] have c: "\<not> is_space c" "c \<noteq> CHR ''-''" "c \<noteq> CHR ''+''" by auto
  have "parse_unsigned (c # cs) = Some n"
    using parse_unsigned_digits[of "nat n"] cs False by simp
  with c cs False show ?thesis
    by (simp add: parseInt_def String_of_int_def)
qed

lemma String_of_int_chars:
  "c \<in> set (String_of_int n) \<Longrightarrow> \<not> is_space c \<and> c \<noteq> CHR ''!'' \<and> c \<noteq> CHR ''+''"
proof (cases "n < 0")
  case True
  assume "c \<in> set (String_of_int n)"
  with True have "c = CHR ''-'' \<or> c \<in> set (digits (nat (- n)))"
    by (simp add: String_of_int_def)
  then show ?thesis
  proof
    assume "c = CHR ''-''" then show ?thesis by (simp add: is_space_def)
  next
    assume "c \<in> set (digits (nat (- n)))"
    from digits_all[OF this] show ?thesis by simp
  qed
next
  case False
  assume "c \<in> set (String_of_int n)"
  with False have "c \<in> set (digits (nat n))" by (simp add: String_of_int_def)
  from digits_all[OF this] show ?thesis by simp
qed

lemma String_of_int_nonempty: "String_of_int n \<noteq> []"
  by (simp add: String_of_int_def digits_nonempty)

lemma trim_id:
  assumes "s \<noteq> []" "\<not> is_space (hd s)" "\<not> is_space (last s)"
  shows "trim s = s"
proof -
  from assms have a: "dropWhile is_space s = s" by (cases s) auto
  from assms have "rev s \<noteq> []" "\<not> is_space (hd (rev s))" by (auto simp: hd_rev)
  then have "dropWhile is_space (rev s) = rev s" by (cases "rev s") auto
  with a show ?thesis by (simp add: trim_def)
qed

lemma strip_marks_id:
  "\<forall>c\<in>set s. c \<noteq> CHR ''!'' \<and> c \<noteq> CHR ''+'' \<Longrightarrow> strip_marks s = s"
  by (simp add: strip_marks_def filter_id_conv)

lemma spec_string_normal:
  assumes "p \<in> {[], ''!'', ''+''}"
  shows "trim (p @ String_of_int n) = p @ String_of_int n"
    and "strip_marks (p @ String_of_int n) = String_of_int n"
proof -
  let ?S = "String_of_int n"
  have ne: "?S \<noteq> []" by (rule String_of_int_nonempty)
  have l: "\<not> is_space (last (p @ ?S))"
    using ne String_of_int_chars[of "last ?S" n] by simp
  have h: "\<not> is_space (hd (p @ ?S))"
    using assms ne String_of_int_chars[of "hd ?S" n] by (auto simp: is_space_def)
  show "trim (p @ ?S) = p @ ?S" using trim_id[OF _ h l] ne by simp
  have "strip_marks ?S = ?S" using String_of_int_chars by (intro strip_marks_id) blast
  then show "strip_marks (p @ ?S) = ?S" using assms by (auto simp: strip_marks_def)
qed

section \<open>Leap year results\<close>

lemma foldl_tally_acc: "foldl tally acc vs = acc + sum_list (map vote_weight vs)"
  by (induction vs arbitrary: acc) (simp_all add: tally_def vote_weight_def split: vote.splits)

lemma foldl_tally:
  "foldl tally 0 (map f xs) = sum_list (map (\<lambda>x. vote_weight (f x)) xs)"
  by (simp add: foldl_tally_acc comp_def)

lemma gregorian_intervals:
  "parsePattern ''400,!100,4'' 0 =
     [\<lparr>interval = 400, subtracts = False, offset = 0\<rparr>,
      \<lparr>interval = 100, subtracts = True, offset = 0\<rparr>,
      \<lparr>interval = 4, subtracts = False, offset = 0\<rparr>]"
  by (simp add: parsePattern_def parseInterval_def trim_def is_space_def str_includes_def
      strip_marks_def parseInt_def parse_unsigned_def is_digit_def digits_value_def
      digit_val_def trem_def Let_def)

text \<open>
  C3 (as amended). An interval spec is the decimal numeral of an integer \<open>n\<close>, optionally
  prefixed with \<open>!\<close> or \<open>+\<close>. For every such spec and every offset, \<open>parseInterval\<close>
  returns the interval \<open>max 1 n\<close>, which is \<open>max 1 \<bar>n\<bar>\<close> for \<open>n \<ge> 0\<close> and \<open>1\<close> for
  every negative \<open>n\<close> (the minus sign is parsed, no absolute value is taken);
  \<open>subtracts\<close> tells whether the spec contains \<open>!\<close>; the offset is \<open>0\<close> when the interval
  is \<open>1\<close> or \<open>+\<close> is present, and otherwise the double remainder
  \<open>((interval + offset) % interval + interval) % interval\<close>.
\<close>

theorem parseInterval_integer_spec:
  assumes "p \<in> {[], ''!'', ''+''}"
  shows "parseInterval (p @ String_of_int n) off =
      \<lparr>interval = max 1 n,
       subtracts = (CHR ''!'' \<in> set (p @ String_of_int n)),
       offset = (if max 1 n = 1 \<or> CHR ''+'' \<in> set (p @ String_of_int n) then 0
                 else trem (trem (max 1 n + off) (max 1 n) + max 1 n) (max 1 n))\<rparr>
    \<and> (0 \<le> n \<longrightarrow> interval (parseInterval (p @ String_of_int n) off) = max 1 \<bar>n\<bar>)
    \<and> (n < 0 \<longrightarrow> interval (parseInterval (p @ String_of_int n) off) = 1)"
  using spec_string_normal[OF assms, of n] parseInt_String_of_int[of n]
  by (auto simp: parseInterval_def Let_def str_includes_def max_def)

theorem parseInterval_integer_spec_witness:
  "''!'' \<in> {[], ''!'', ''+''} \<and> String_of_int 100 = ''100'' \<and> (0::int) \<le> 100
   \<and> parseInterval ''!100'' (- 7) = \<lparr>interval = 100, subtracts = True, offset = 93\<rparr>
   \<and> interval (parseInterval ''!100'' (- 7)) = max 1 \<bar>100\<bar>"
proof -
  have s: "String_of_int 100 = ''100''"
    by code_simp
  have m: "(''!'' :: string) \<in> {[], ''!'', ''+''}" by simp
  show ?thesis
    using parseInterval_integer_spec[OF m, of 100 "- 7"] s
    by (simp add: trem_def)
qed

text \<open>
  The spec \<open>-5\<close> is the numeral of the integer \<open>-5\<close>: \<open>parseInt\<close> reads \<open>-5\<close>, which is
  truthy, and \<open>Math.max(1, -5)\<close> is \<open>1\<close>, not \<open>max 1 \<bar>-5\<bar> = 5\<close>.
\<close>

theorem parseInterval_negative_counterexample:
  "interval (parseInterval ''-5'' 0) = 1 \<and> max 1 \<bar>- 5 :: int\<bar> = 5
   \<and> String_of_int (- 5) = ''-5''"
  by (simp add: parseInterval_def trim_def is_space_def str_includes_def
      strip_marks_def parseInt_def parse_unsigned_def is_digit_def digits_value_def
      digit_val_def trem_def Let_def String_of_int_def digit_char_def digits_small)

text \<open>
  C4. With the gregorian rule and start offset 0, \<open>isLeapYear\<close> is true for the years
  2000 and 2024 and false for the years 1900 and 2023, whatever the other fields of the
  configuration and the year-zero flag are.
\<close>

theorem isLeapYear_gregorian_years:
  "isLeapYear (Some (cfg\<lparr>cfg_rule := Some ''gregorian'', cfg_start := Some 0\<rparr>)) 2000 yze
   \<and> \<not> isLeapYear (Some (cfg\<lparr>cfg_rule := Some ''gregorian'', cfg_start := Some 0\<rparr>)) 1900 yze
   \<and> isLeapYear (Some (cfg\<lparr>cfg_rule := Some ''gregorian'', cfg_start := Some 0\<rparr>)) 2024 yze
   \<and> \<not> isLeapYear (Some (cfg\<lparr>cfg_rule := Some ''gregorian'', cfg_start := Some 0\<rparr>)) 2023 yze"
  by (simp add: isLeapYear_def nullish_def gregorian_intervals intersectsYear_def
      voteOnYear_def js_rem_def trem_def tally_def Let_def)

text \<open>
  C5. For every non-empty list of intervals and every year, \<open>intersectsYear\<close> holds
  exactly when the sum of the votes (allow \<open>+1\<close>, deny \<open>-1\<close>, abstain \<open>0\<close>) is strictly
  positive; a year whose votes sum to exactly \<open>0\<close> is not a leap year.
\<close>

theorem intersectsYear_iff_vote_sum_positive:
  assumes "intervals \<noteq> []"
  shows "(intersectsYear intervals year yze \<longleftrightarrow> 0 < vote_sum intervals year yze)
    \<and> (vote_sum intervals year yze = 0 \<longrightarrow> \<not> intersectsYear intervals year yze)"
  using assms by (simp add: intersectsYear_def vote_sum_def foldl_tally Let_def)

theorem intersectsYear_iff_vote_sum_positive_witness:
  "parsePattern ''400,!100,4'' 0 \<noteq> []
   \<and> vote_sum (parsePattern ''400,!100,4'' 0) 1900 True = 0
   \<and> \<not> intersectsYear (parsePattern ''400,!100,4'' 0) 1900 True"
proof -
  have ne: "parsePattern ''400,!100,4'' 0 \<noteq> []" by (simp add: gregorian_intervals)
  have z: "vote_sum (parsePattern ''400,!100,4'' 0) 1900 True = 0"
    by (simp add: gregorian_intervals vote_sum_def vote_weight_def voteOnYear_def
        js_rem_def trem_def)
  show ?thesis
    using intersectsYear_iff_vote_sum_positive[OF ne, of 1900 True] ne z by simp
qed

section \<open>Era results\<close>

lemma mset_insert_by: "mset (insert_by cmp x xs) = add_mset x (mset xs)"
  by (induction xs) simp_all

lemma mset_js_sort: "mset (js_sort cmp xs) = mset xs"
  by (induction xs) (simp_all add: js_sort_def mset_insert_by)

lemma set_insert_by: "set (insert_by cmp x xs) = insert x (set xs)"
  by (induction xs) auto

lemma sorted_insert_by_start:
  "sorted_wrt (\<lambda>a b. startYear b \<le> startYear a) xs \<Longrightarrow>
   sorted_wrt (\<lambda>a b. startYear b \<le> startYear a)
     (insert_by (\<lambda>a b. startYear b - startYear a) x xs)"
  by (induction xs) (auto simp: set_insert_by)

lemma sorted_sortedEras:
  "sorted_wrt (\<lambda>a b. startYear b \<le> startYear a) (sortedEras es)"
  by (induction es) (simp_all add: sortedEras_def js_sort_def sorted_insert_by_start)

lemma mset_sortedEras: "mset (sortedEras es) = mset es"
  by (simp add: sortedEras_def mset_js_sort)

lemma set_sortedEras: "set (sortedEras es) = set es"
  using mset_sortedEras[of es] by (metis set_mset_mset)

lemma era_loop_find:
  "era_loop es dy =
     (case find (era_covers dy) es of
        None \<Rightarrow> None
      | Some w \<Rightarrow> Some (era_result w (dy - startYear w + 1)))"
  by (induction es) simp_all

lemma find_first_sorted:
  assumes "find P xs = Some w" "sorted_wrt R xs" "e \<in> set xs" "P e"
  shows "e = w \<or> R w e"
proof -
  from assms(1) obtain i where i: "i < length xs" "xs ! i = w" "\<forall>j<i. \<not> P (xs ! j)"
    by (auto simp: find_Some_iff)
  from assms(3) obtain k where k: "k < length xs" "xs ! k = e"
    by (auto simp: in_set_conv_nth)
  with assms(4) i(3) have "\<not> k < i" by auto
  then have "k = i \<or> i < k" by auto
  then show ?thesis
  proof
    assume "k = i" with i k show ?thesis by simp
  next
    assume "i < k"
    with assms(2) k(1) have "R (xs ! i) (xs ! k)" by (simp add: sorted_wrt_nth_less)
    with i k show ?thesis by simp
  qed
qed

lemma getCurrentEra_found:
  assumes "find (era_covers (displayYear cal c)) (sortedEras (eras cal)) = Some w"
  shows "getCurrentEra cal c = Some (era_result w (displayYear cal c - startYear w + 1))"
proof -
  from assms have "w \<in> set (sortedEras (eras cal))" by (auto simp: find_Some_iff)
  then have "eras cal \<noteq> []" by (auto simp: set_sortedEras)
  with assms show ?thesis by (simp add: getCurrentEra_def era_loop_find Let_def)
qed

lemma era_loop_none:
  "(\<forall>e\<in>set es. \<not> era_covers dy e) \<Longrightarrow> era_loop es dy = None"
  by (induction es) simp_all

text \<open>
  C8. \<open>getCurrentEra\<close> walks the eras in descending \<open>startYear\<close> order: the sorted list is
  a rearrangement of the stored one (a copy is sorted, the stored list is an argument
  that stays as it is) and is descending. The first era of that order with
  \<open>startYear \<le> displayYear\<close> and an \<open>endYear\<close> that is null or \<open>\<ge> displayYear\<close> is returned,
  with \<open>yearInEra = displayYear - startYear + 1\<close>; no covering era starts later. For the
  eras starting 1000 and 1500, both open-ended, the display year 1600 resolves to the
  era starting 1500 with \<open>yearInEra = 101\<close>.
\<close>

theorem getCurrentEra_first_match_descending:
  "mset (sortedEras (eras cal)) = mset (eras cal)
   \<and> sorted_wrt (\<lambda>a b. startYear b \<le> startYear a) (sortedEras (eras cal))
   \<and> (\<forall>w. find (era_covers (displayYear cal c)) (sortedEras (eras cal)) = Some w \<longrightarrow>
         getCurrentEra cal c = Some (era_result w (displayYear cal c - startYear w + 1))
         \<and> (\<forall>e\<in>set (eras cal). era_covers (displayYear cal c) e \<longrightarrow> startYear e \<le> startYear w))
   \<and> getCurrentEra
        (cal\<lparr>yearZero := None,
             eras := [e1\<lparr>startYear := 1000, endYear := None\<rparr>,
                      e2\<lparr>startYear := 1500, endYear := None\<rparr>]\<rparr>)
        (c\<lparr>c_year := 1600\<rparr>)
       = Some (era_result (e2\<lparr>startYear := 1500, endYear := None\<rparr>) 101)"
proof (intro conjI allI impI ballI)
  show "mset (sortedEras (eras cal)) = mset (eras cal)" by (rule mset_sortedEras)
  show "sorted_wrt (\<lambda>a b. startYear b \<le> startYear a) (sortedEras (eras cal))"
    by (rule sorted_sortedEras)
next
  fix w assume "find (era_covers (displayYear cal c)) (sortedEras (eras cal)) = Some w"
  then show "getCurrentEra cal c = Some (era_result w (displayYear cal c - startYear w + 1))"
    by (rule getCurrentEra_found)
next
  fix w e
  assume f: "find (era_covers (displayYear cal c)) (sortedEras (eras cal)) = Some w"
    and e: "e \<in> set (eras cal)" "era_covers (displayYear cal c) e"
  from e(1) have "e \<in> set (sortedEras (eras cal))" by (simp add: set_sortedEras)
  from find_first_sorted[OF f sorted_sortedEras this e(2)]
  show "startYear e \<le> startYear w" by auto
next
  show "getCurrentEra
        (cal\<lparr>yearZero := None,
             eras := [e1\<lparr>startYear := 1000, endYear := None\<rparr>,
                      e2\<lparr>startYear := 1500, endYear := None\<rparr>]\<rparr>)
        (c\<lparr>c_year := 1600\<rparr>)
       = Some (era_result (e2\<lparr>startYear := 1500, endYear := None\<rparr>) 101)"
    by (simp add: getCurrentEra_def displayYear_def sortedEras_def js_sort_def era_covers_def
        Let_def)
qed

theorem getCurrentEra_first_match_descending_witness:
  "find (era_covers (displayYear (plain_calendar\<lparr>eras := [age 1000 None, age 1500 None]\<rparr>)
                       (midnight\<lparr>c_year := 1600\<rparr>)))
        (sortedEras (eras (plain_calendar\<lparr>eras := [age 1000 None, age 1500 None]\<rparr>)))
     = Some (age 1500 None)
   \<and> getCurrentEra (plain_calendar\<lparr>eras := [age 1000 None, age 1500 None]\<rparr>)
         (midnight\<lparr>c_year := 1600\<rparr>)
     = Some \<lparr>em_name = ''Age'', em_abbreviation = ''A'', em_format = ''suffix'',
             em_template = None, yearInEra = 101\<rparr>
   \<and> age 1000 None \<in> set (eras (plain_calendar\<lparr>eras := [age 1000 None, age 1500 None]\<rparr>))
   \<and> era_covers 1600 (age 1000 None)
   \<and> startYear (age 1000 None) \<le> startYear (age 1500 None)"
proof -
  let ?cal = "plain_calendar\<lparr>eras := [age 1000 None, age 1500 None]\<rparr>"
  let ?c = "midnight\<lparr>c_year := 1600\<rparr>"
  have dy: "displayYear ?cal ?c = 1600"
    by (simp add: displayYear_def plain_calendar_def midnight_def)
  have f: "find (era_covers (displayYear ?cal ?c)) (sortedEras (eras ?cal)) = Some (age 1500 None)"
    unfolding dy by (simp add: sortedEras_def js_sort_def era_covers_def age_def)
  have "getCurrentEra ?cal ?c
      = Some (era_result (age 1500 None) (displayYear ?cal ?c - startYear (age 1500 None) + 1))"
    using getCurrentEra_first_match_descending[of ?cal ?c] f by blast
  then show ?thesis
    using f unfolding dy by (simp add: era_result_def age_def era_covers_def)
qed

text \<open>
  C9. When the era list is not empty and no era covers the display year,
  \<open>getCurrentEra\<close> returns the first era of the stored (unsorted) list, with
  \<open>yearInEra\<close> equal to the display year itself.
\<close>

theorem getCurrentEra_fallback_first_era:
  assumes "eras cal = e0 # rest"
    and "\<forall>e\<in>set (eras cal). \<not> era_covers (displayYear cal c) e"
  shows "getCurrentEra cal c = Some (era_result e0 (displayYear cal c))
    \<and> yearInEra (era_result e0 (displayYear cal c)) = displayYear cal c"
proof -
  from assms(2) have "era_loop (sortedEras (eras cal)) (displayYear cal c) = None"
    by (intro era_loop_none) (simp add: set_sortedEras)
  with assms(1) show ?thesis
    by (simp add: getCurrentEra_def Let_def era_result_def)
qed

theorem getCurrentEra_fallback_first_era_witness:
  "eras (plain_calendar\<lparr>eras := [age 1000 (Some 1200), age 1500 None]\<rparr>)
     = age 1000 (Some 1200) # [age 1500 None]
   \<and> \<not> era_covers 1300 (age 1000 (Some 1200)) \<and> \<not> era_covers 1300 (age 1500 None)
   \<and> getCurrentEra (plain_calendar\<lparr>eras := [age 1000 (Some 1200), age 1500 None]\<rparr>)
         (midnight\<lparr>c_year := 1300\<rparr>)
     = Some \<lparr>em_name = ''Age'', em_abbreviation = ''A'', em_format = ''suffix'',
             em_template = None, yearInEra = 1300\<rparr>"
proof -
  let ?cal = "plain_calendar\<lparr>eras := [age 1000 (Some 1200), age 1500 None]\<rparr>"
  let ?c = "midnight\<lparr>c_year := 1300\<rparr>"
  have dy: "displayYear ?cal ?c = 1300"
    by (simp add: displayYear_def plain_calendar_def midnight_def)
  have e: "eras ?cal = age 1000 (Some 1200) # [age 1500 None]" by simp
  have n: "\<forall>e\<in>set (eras ?cal). \<not> era_covers (displayYear ?cal ?c) e"
    unfolding dy by (simp add: era_covers_def age_def)
  show ?thesis
    using getCurrentEra_fallback_first_era[OF e n] n
    unfolding dy by (simp add: era_result_def age_def)
qed

section \<open>Cycle results\<close>

lemma trem_nonneg: "0 \<le> a \<Longrightarrow> 0 < n \<Longrightarrow> trem a n = a mod n"
  by (cases "a = 0") (simp_all add: trem_def)

lemma trem_neg: "a < 0 \<Longrightarrow> 0 < n \<Longrightarrow> trem a n = - ((- a) mod n)"
  by (simp add: trem_def)

lemma trem_range: "0 < n \<Longrightarrow> - n < trem a n \<and> trem a n < n"
proof (cases "a < 0")
  case True
  assume n: "0 < n"
  then have "0 \<le> (- a) mod n" "(- a) mod n < n" by simp_all
  with True n show ?thesis by (simp add: trem_neg)
next
  case False
  assume n: "0 < n"
  then have "0 \<le> a mod n" "a mod n < n" by simp_all
  with False n show ?thesis by (simp add: trem_nonneg)
qed

lemma trem_cong: "0 < n \<Longrightarrow> trem a n mod n = a mod n"
proof (cases "a < 0")
  case True
  assume n: "0 < n"
  have "(- ((- a) mod n)) mod n = (- (- a)) mod n" by (rule mod_minus_cong) simp
  with True n show ?thesis by (simp add: trem_neg)
next
  case False
  assume "0 < n"
  with False show ?thesis by (simp add: trem_nonneg)
qed

lemma double_rem: 
  assumes "0 < n" shows "trem (trem a n + n) n = a mod n"
proof -
  from trem_range[OF assms, of a] have "0 \<le> trem a n + n" by simp
  then have "trem (trem a n + n) n = (trem a n + n) mod n" using assms by (simp add: trem_nonneg)
  also have "\<dots> = trem a n mod n" by simp
  also have "\<dots> = a mod n" using assms by (rule trem_cong)
  finally show ?thesis .
qed

lemma cycleIndex_floor_mod:
  assumes "cycle_length cy \<noteq> 0" "entries cy \<noteq> []"
  shows "cycleIndex ev cy =
     Some ((ev div cycle_length cy + cycle_offset cy div cycle_length cy)
             mod int (length (entries cy)))"
proof -
  let ?n = "int (length (entries cy))"
  let ?d = "cycle_offset cy div cycle_length cy"
  let ?q = "ev div cycle_length cy"
  let ?q' = "if ?q < 0 then ?q + ceil_div \<bar>ev\<bar> ?n * ?n else ?q"
  from assms(2) have n: "0 < ?n" by simp
  have norm: "trem (trem (trem y ?n) ?n + ?n) ?n = y mod ?n" for y
    using n by (simp only: double_rem trem_cong)
  have "(?q + k * ?n + ?d) mod ?n = (?q + ?d) mod ?n" for k
  proof -
    have "?q + k * ?n + ?d = (?q + ?d) + k * ?n" by simp
    then show ?thesis by (simp only: mod_mult_self1)
  qed
  then have shift: "(?q' + ?d) mod ?n = (?q + ?d) mod ?n" by simp
  have "cycleIndex ev cy = Some (trem (trem (trem (?q' + ?d) ?n) ?n + ?n) ?n)"
    using assms(1) by (simp only: cycleIndex_def Let_def if_False)
  then show ?thesis by (simp only: norm shift)
qed

lemma dayOfYear_ok: "monthValues cal = Some ms \<Longrightarrow> \<exists>d. dayOfYear cal c = Inr d"
  by (simp add: dayOfYear_def)

lemma getCycleValues_single:
  assumes "cycles cal = [cy]" "entries cy \<noteq> []" "monthValues cal = Some ms"
  shows "\<exists>ev. getCycleEpochValues cal c td = Inr ev \<and> ev_month ev = int (c_month c)
           \<and> getCycleValues cal c td = Inr [cycle_entry ev cy]"
proof -
  from dayOfYear_ok[OF assms(3)] obtain d where "dayOfYear cal c = Inr d" by blast
  then show ?thesis using assms(1,2)
    by (simp add: getCycleValues_def getCycleEpochValues_def Let_def)
qed

text \<open>
  C1 (as amended). The index of a cycle with entries and a non-zero length is computed
  as \<open>cycleNum = floor(epochValue / length)\<close>, raised by
  \<open>ceil(\<bar>epochValue\<bar> / entries.length) * entries.length\<close> when negative, then
  \<open>(cycleNum + floor(offset / length)) % entries.length\<close>, normalised by the double
  remainder; the result lies in \<open>[0, entries.length)\<close> and is
  \<open>(floor(epochValue / length) + floor(offset / length)) mod entries.length\<close>.
  For a cycle based on the month with offset 0 and 12 entries, \<open>getCycleValues\<close>
  resolves every month in \<open>0..11\<close> to index \<open>0\<close> when the length is 12 (an entry lasts
  \<open>length\<close> months), and to the month itself when the length is 1.
\<close>

theorem cycleIndex_resolution:
  "(cycle_length cy \<noteq> 0 \<and> entries cy \<noteq> [] \<longrightarrow>
      cycleIndex ev cy =
        Some (let n = int (length (entries cy));
                  cycleNum = ev div cycle_length cy;
                  cycleNum = (if cycleNum < 0 then cycleNum + ceil_div \<bar>ev\<bar> n * n else cycleNum)
              in trem (trem (trem (cycleNum + cycle_offset cy div cycle_length cy) n) n + n) n)
      \<and> cycleIndex ev cy =
          Some ((ev div cycle_length cy + cycle_offset cy div cycle_length cy)
                  mod int (length (entries cy)))
      \<and> 0 \<le> the (cycleIndex ev cy) \<and> the (cycleIndex ev cy) < int (length (entries cy)))
   \<and> (cycles cal = [cy] \<and> monthValues cal = Some ms \<and> basedOn cy = ''month''
        \<and> cycle_offset cy = 0 \<and> length (entries cy) = 12 \<and> c_month c < 12 \<longrightarrow>
        (cycle_length cy = 12 \<longrightarrow>
           getCycleValues cal c td =
             Inr [\<lparr>cycleName = cycle_name cy, entryName = entries cy ! 0, index = Some 0\<rparr>])
        \<and> (cycle_length cy = 1 \<longrightarrow>
           getCycleValues cal c td =
             Inr [\<lparr>cycleName = cycle_name cy, entryName = entries cy ! c_month c,
                   index = Some (int (c_month c))\<rparr>]))"
proof (intro conjI impI)
  assume a: "cycle_length cy \<noteq> 0 \<and> entries cy \<noteq> []"
  then show "cycleIndex ev cy =
        Some (let n = int (length (entries cy));
                  cycleNum = ev div cycle_length cy;
                  cycleNum = (if cycleNum < 0 then cycleNum + ceil_div \<bar>ev\<bar> n * n else cycleNum)
              in trem (trem (trem (cycleNum + cycle_offset cy div cycle_length cy) n) n + n) n)"
    by (simp add: cycleIndex_def Let_def)
  from a show fm: "cycleIndex ev cy =
          Some ((ev div cycle_length cy + cycle_offset cy div cycle_length cy)
                  mod int (length (entries cy)))"
    by (simp add: cycleIndex_floor_mod)
  from a have "0 < int (length (entries cy))" by simp
  then show "0 \<le> the (cycleIndex ev cy)" "the (cycleIndex ev cy) < int (length (entries cy))"
    unfolding fm by simp_all
next
  assume h: "cycles cal = [cy] \<and> monthValues cal = Some ms \<and> basedOn cy = ''month''
        \<and> cycle_offset cy = 0 \<and> length (entries cy) = 12 \<and> c_month c < 12"
  then have ne: "entries cy \<noteq> []" by auto
  from h getCycleValues_single[OF _ ne, of cal ms c td]
  obtain ev where ev: "ev_month ev = int (c_month c)"
     "getCycleValues cal c td = Inr [cycle_entry ev cy]" by blast
  have look: "epoch_lookup ev ''month'' = int (c_month c)"
    by (simp add: epoch_lookup_def ev(1))
  {
    assume l: "cycle_length cy = 12"
    have "cycleIndex (int (c_month c)) cy = Some 0"
      using h l ne by (simp add: cycleIndex_floor_mod)
    then show "getCycleValues cal c td =
             Inr [\<lparr>cycleName = cycle_name cy, entryName = entries cy ! 0, index = Some 0\<rparr>]"
      using h by (simp add: ev(2) cycle_entry_def look nth_opt_def Let_def)
  }
  {
    assume l: "cycle_length cy = 1"
    have "cycleIndex (int (c_month c)) cy = Some (int (c_month c))"
      using h l ne by (simp add: cycleIndex_floor_mod)
    then show "getCycleValues cal c td =
             Inr [\<lparr>cycleName = cycle_name cy, entryName = entries cy ! c_month c,
                   index = Some (int (c_month c))\<rparr>]"
      using h by (simp add: ev(2) cycle_entry_def look nth_opt_def Let_def)
  }
qed

theorem cycleIndex_resolution_witness:
  "cycle_length (zodiac 12) \<noteq> 0 \<and> entries (zodiac 12) \<noteq> []
   \<and> cycleIndex (- 13) (zodiac 12) = Some 10
   \<and> cycles (plain_calendar\<lparr>cycles := [zodiac 12]\<rparr>) = [zodiac 12]
   \<and> cycles (plain_calendar\<lparr>cycles := [zodiac 1]\<rparr>) = [zodiac 1]
   \<and> basedOn (zodiac 12) = ''month'' \<and> cycle_offset (zodiac 12) = 0
   \<and> length (entries (zodiac 12)) = 12 \<and> c_month (midnight\<lparr>c_month := 5\<rparr>) < 12
   \<and> getCycleValues (plain_calendar\<lparr>cycles := [zodiac 12]\<rparr>) (midnight\<lparr>c_month := 5\<rparr>) 150
       = Inr [\<lparr>cycleName = ''Zodiac'', entryName = ''Aries'', index = Some 0\<rparr>]
   \<and> getCycleValues (plain_calendar\<lparr>cycles := [zodiac 1]\<rparr>) (midnight\<lparr>c_month := 5\<rparr>) 150
       = Inr [\<lparr>cycleName = ''Zodiac'', entryName = ''Virgo'', index = Some 5\<rparr>]"
proof -
  let ?c = "midnight\<lparr>c_month := 5\<rparr>"
  let ?ms = "replicate 12 \<lparr>days = 30, leapDays = None\<rparr>"
  let ?cal = "\<lambda>k. plain_calendar\<lparr>cycles := [zodiac k]\<rparr>"
  have m: "monthValues (?cal k) = Some ?ms" for k
    by (simp add: plain_calendar_def)
  have cy: "cycles (?cal k) = [zodiac k]" for k by simp
  have z: "cycle_name (zodiac k) = ''Zodiac''" "cycle_length (zodiac k) = k"
    "cycle_offset (zodiac k) = 0" "basedOn (zodiac k) = ''month''"
    "length (entries (zodiac k)) = 12" "entries (zodiac k) \<noteq> []"
    "entries (zodiac k) ! 0 = ''Aries''" "entries (zodiac k) ! 5 = ''Virgo''" for k
    by (simp_all add: zodiac_def)
  have c: "c_month ?c = 5" by simp
  have pre: "cycles (?cal k) = [zodiac k] \<and> monthValues (?cal k) = Some ?ms
      \<and> basedOn (zodiac k) = ''month'' \<and> cycle_offset (zodiac k) = 0
      \<and> length (entries (zodiac k)) = 12 \<and> c_month ?c < 12" for k
    by (simp only: cy m z c) simp
  have nz: "cycle_length (zodiac 12) \<noteq> 0 \<and> entries (zodiac 12) \<noteq> []"
    by (simp only: z) simp
  have a: "cycleIndex (- 13) (zodiac 12)
      = Some ((- 13 div cycle_length (zodiac 12)
               + cycle_offset (zodiac 12) div cycle_length (zodiac 12))
              mod int (length (entries (zodiac 12))))"
    using cycleIndex_resolution[of "zodiac 12" "- 13" "?cal 12" ?ms ?c 150] nz by blast
  have b: "getCycleValues (?cal 12) ?c 150
      = Inr [\<lparr>cycleName = cycle_name (zodiac 12), entryName = entries (zodiac 12) ! 0,
              index = Some 0\<rparr>]"
    using cycleIndex_resolution[of "zodiac 12" "- 13" "?cal 12" ?ms ?c 150] pre[of 12] z(2)[of 12]
    by blast
  have d: "getCycleValues (?cal 1) ?c 150
      = Inr [\<lparr>cycleName = cycle_name (zodiac 1), entryName = entries (zodiac 1) ! c_month ?c,
              index = Some (int (c_month ?c))\<rparr>]"
    using cycleIndex_resolution[of "zodiac 1" 0 "?cal 1" ?ms ?c 150] pre[of 1] z(2)[of 1]
    by blast
  have a': "cycleIndex (- 13) (zodiac 12) = Some 10"
    by (simp only: a z) simp
  have b': "getCycleValues (?cal 12) ?c 150
      = Inr [\<lparr>cycleName = ''Zodiac'', entryName = ''Aries'', index = Some 0\<rparr>]"
    by (simp only: b z)
  have d': "getCycleValues (?cal 1) ?c 150
      = Inr [\<lparr>cycleName = ''Zodiac'', entryName = ''Virgo'', index = Some 5\<rparr>]"
    by (simp only: d z c) simp
  from nz pre[of 12] cy[of 1] a' b' d' show ?thesis by blast
qed

text \<open>
  Month 5 of a 12-entry cycle of length 12 based on the month: the index is \<open>0\<close>, not \<open>5\<close>.
\<close>

theorem cycleIndex_month_counterexample:
  "getCycleValues (plain_calendar\<lparr>cycles := [zodiac 12]\<rparr>) (midnight\<lparr>c_month := 5\<rparr>) 150
     = Inr [\<lparr>cycleName = ''Zodiac'', entryName = ''Aries'', index = Some 0\<rparr>]
   \<and> c_month (midnight\<lparr>c_month := 5\<rparr>) = 5"
  by code_simp

section \<open>Moon phase results\<close>

lemma dist_loop_primary:
  "i < 8 \<Longrightarrow> i = 0 \<or> i = 4 \<Longrightarrow> j = i + 1 \<Longrightarrow>
   dist_loop i p s x a d = dist_loop j p s x a (d @ [p])"
  by (subst dist_loop.simps) simp

lemma dist_loop_secondary:
  "i < 8 \<Longrightarrow> i \<noteq> 0 \<Longrightarrow> i \<noteq> 4 \<Longrightarrow> j = i + 1 \<Longrightarrow> b = a + 1 \<Longrightarrow>
   dist_loop i p s x a d = dist_loop j p s x b (d @ [s + (if a < x then 1 else 0)])"
  by (subst dist_loop.simps) (simp add: Let_def)

lemma dist_loop_done: "dist_loop 8 p s x a d = d"
  by (subst dist_loop.simps) simp

lemma dist_loop_unrolled:
  "dist_loop 0 p s x 0 [] =
     [p, s + (if 0 < x then 1 else 0), s + (if 1 < x then 1 else 0),
      s + (if 2 < x then 1 else 0), p, s + (if 3 < x then 1 else 0),
      s + (if 4 < x then 1 else 0), s + (if 5 < x then 1 else 0)]"
proof -
  let ?e = "\<lambda>k. s + (if k < x then 1 else 0)"
  have "dist_loop 0 p s x 0 [] = dist_loop 1 p s x 0 ([] @ [p])"
    by (rule dist_loop_primary) simp_all
  also have "\<dots> = dist_loop 2 p s x 1 (([] @ [p]) @ [?e 0])"
    by (rule dist_loop_secondary) simp_all
  also have "\<dots> = dist_loop 3 p s x 2 ((([] @ [p]) @ [?e 0]) @ [?e 1])"
    by (rule dist_loop_secondary) simp_all
  also have "\<dots> = dist_loop 4 p s x 3 (((([] @ [p]) @ [?e 0]) @ [?e 1]) @ [?e 2])"
    by (rule dist_loop_secondary) simp_all
  also have "\<dots> = dist_loop 5 p s x 3 ((((([] @ [p]) @ [?e 0]) @ [?e 1]) @ [?e 2]) @ [p])"
    by (rule dist_loop_primary) simp_all
  also have "\<dots> = dist_loop 6 p s x 4
      (((((([] @ [p]) @ [?e 0]) @ [?e 1]) @ [?e 2]) @ [p]) @ [?e 3])"
    by (rule dist_loop_secondary) simp_all
  also have "\<dots> = dist_loop 7 p s x 5
      ((((((([] @ [p]) @ [?e 0]) @ [?e 1]) @ [?e 2]) @ [p]) @ [?e 3]) @ [?e 4])"
    by (rule dist_loop_secondary) simp_all
  also have "\<dots> = dist_loop 8 p s x 6
      (((((((([] @ [p]) @ [?e 0]) @ [?e 1]) @ [?e 2]) @ [p]) @ [?e 3]) @ [?e 4]) @ [?e 5])"
    by (rule dist_loop_secondary) simp_all
  also have "\<dots> = (((((((([] @ [p]) @ [?e 0]) @ [?e 1]) @ [?e 2]) @ [p]) @ [?e 3]) @ [?e 4]) @ [?e 5])"
    by (rule dist_loop_done)
  finally show ?thesis by simp
qed

lemma trem_pos_divisor: "0 \<le> a \<Longrightarrow> 0 < n \<Longrightarrow> trem a n = a mod n"
  by (cases "a = 0") (simp_all add: trem_def)

lemma remaining_nonneg: "0 \<le> cl \<Longrightarrow> 0 \<le> cl - 2 * (cl div 8)" for cl :: int
  by arith

lemma eight_phase_list:
  "buildPhaseDayDistribution cl 8 =
     (let p = cl div 8; r = cl - 2 * p; s = r div 6; x = trem r 6
      in [p, s + (if 0 < x then 1 else 0), s + (if 1 < x then 1 else 0),
          s + (if 2 < x then 1 else 0), p, s + (if 3 < x then 1 else 0),
          s + (if 4 < x then 1 else 0), s + (if 5 < x then 1 else 0)])"
  by (simp add: buildPhaseDayDistribution_def Let_def dist_loop_unrolled mult.commute)

text \<open>
  C6. For every integer cycle length and eight phases, phases 0 and 4 get
  \<open>floor(cycleLength / 8)\<close> days each. With \<open>r = cycleLength - 2 * floor(cycleLength / 8)\<close>,
  each of the six secondary phases gets \<open>floor(r / 6)\<close> days, and the earliest \<open>r % 6\<close>
  of them, in index order, get one day more; \<open>%\<close> is the engine's remainder, which is
  \<open>r mod 6\<close> for every cycle length \<open>\<ge> 0\<close>. For the cycle length 30 the distribution is
  \<open>[3, 4, 4, 4, 3, 4, 4, 4]\<close>, which sums to 30.
\<close>

theorem buildPhaseDayDistribution_eight_phases:
  "buildPhaseDayDistribution cl 8 =
     (let p = cl div 8; r = cl - 2 * p; s = r div 6; x = trem r 6
      in [p, s + (if 0 < x then 1 else 0), s + (if 1 < x then 1 else 0),
          s + (if 2 < x then 1 else 0), p, s + (if 3 < x then 1 else 0),
          s + (if 4 < x then 1 else 0), s + (if 5 < x then 1 else 0)])
   \<and> (0 \<le> cl \<longrightarrow> trem (cl - 2 * (cl div 8)) 6 = (cl - 2 * (cl div 8)) mod 6)
   \<and> buildPhaseDayDistribution 30 8 = [3, 4, 4, 4, 3, 4, 4, 4]
   \<and> sum_list (buildPhaseDayDistribution 30 8) = 30"
proof (intro conjI impI)
  show "buildPhaseDayDistribution cl 8 =
     (let p = cl div 8; r = cl - 2 * p; s = r div 6; x = trem r 6
      in [p, s + (if 0 < x then 1 else 0), s + (if 1 < x then 1 else 0),
          s + (if 2 < x then 1 else 0), p, s + (if 3 < x then 1 else 0),
          s + (if 4 < x then 1 else 0), s + (if 5 < x then 1 else 0)])"
    by (rule eight_phase_list)
  show "trem (cl - 2 * (cl div 8)) 6 = (cl - 2 * (cl div 8)) mod 6" if "0 \<le> cl"
    using that by (intro trem_pos_divisor remaining_nonneg) simp_all
  show e: "buildPhaseDayDistribution 30 8 = [3, 4, 4, 4, 3, 4, 4, 4]"
    by (simp add: eight_phase_list trem_def Let_def)
  show "sum_list (buildPhaseDayDistribution 30 8) = 30"
    by (simp add: e)
qed

theorem buildPhaseDayDistribution_eight_phases_witness:
  "(0::int) \<le> 29
   \<and> buildPhaseDayDistribution 29 8 = [3, 4, 4, 4, 3, 4, 4, 3]
   \<and> trem (29 - 2 * (29 div 8)) 6 = 5 \<and> (29 - 2 * (29 div 8)) mod 6 = (5::int)"
  using buildPhaseDayDistribution_eight_phases[of 29]
  by (simp add: Let_def)

lemma sum_even_split:
  "0 \<le> r \<Longrightarrow>
   sum_list (map (\<lambda>i. b + (if int i < r then 1 else 0)) [0..<n]) = int n * b + min r (int n)"
proof (induction n)
  case 0
  then show ?case by simp
next
  case (Suc n)
  then show ?case by (auto simp: algebra_simps min_def)
qed

lemma even_distribution:
  assumes "0 \<le> cl" "1 \<le> n" "n \<noteq> 8"
  shows "length (buildPhaseDayDistribution cl n) = n"
    and "\<forall>d\<in>set (buildPhaseDayDistribution cl n). 0 \<le> d"
    and "sum_list (buildPhaseDayDistribution cl n) = cl"
proof -
  let ?b = "cl div int n" and ?r = "cl mod int n"
  from assms have n: "0 < int n" by simp
  have r: "trem cl (int n) = ?r" using assms(1) n by (rule trem_pos_divisor)
  have d: "buildPhaseDayDistribution cl n
      = map (\<lambda>i. ?b + (if int i < ?r then 1 else 0)) [0..<n]"
    using assms(3) by (simp add: buildPhaseDayDistribution_def Let_def r)
  show "length (buildPhaseDayDistribution cl n) = n" by (simp add: d)
  have b0: "0 \<le> ?b" using assms(1) n by (simp add: pos_imp_zdiv_nonneg_iff)
  then show "\<forall>d\<in>set (buildPhaseDayDistribution cl n). 0 \<le> d" by (auto simp: d)
  have r0: "0 \<le> ?r" "?r < int n" using n by simp_all
  then have "sum_list (buildPhaseDayDistribution cl n) = int n * ?b + ?r"
    by (simp add: d sum_even_split min_def)
  then show "sum_list (buildPhaseDayDistribution cl n) = cl" by simp
qed

lemma extras_count:
  "0 \<le> x \<Longrightarrow> x < 6 \<Longrightarrow>
   (if 0 < x then 1 else 0) + (if 1 < x then 1 else 0) + (if 2 < x then 1 else 0)
     + (if 3 < x then 1 else 0) + (if 4 < x then 1 else 0) + (if 5 < x then 1 else (0::int)) = x"
  by auto

lemma eight_distribution:
  assumes "0 \<le> cl"
  shows "length (buildPhaseDayDistribution cl 8) = 8"
    and "\<forall>d\<in>set (buildPhaseDayDistribution cl 8). 0 \<le> d"
    and "sum_list (buildPhaseDayDistribution cl 8) = cl"
proof -
  let ?p = "cl div 8"
  let ?r = "cl - 2 * ?p"
  let ?s = "?r div 6" and ?x = "?r mod 6"
  have r0: "0 \<le> ?r" using assms by (rule remaining_nonneg)
  have x: "trem ?r 6 = ?x" using r0 by (intro trem_pos_divisor) simp_all
  have d: "buildPhaseDayDistribution cl 8 =
      [?p, ?s + (if 0 < ?x then 1 else 0), ?s + (if 1 < ?x then 1 else 0),
       ?s + (if 2 < ?x then 1 else 0), ?p, ?s + (if 3 < ?x then 1 else 0),
       ?s + (if 4 < ?x then 1 else 0), ?s + (if 5 < ?x then 1 else 0)]"
    by (simp only: eight_phase_list Let_def x)
  show "length (buildPhaseDayDistribution cl 8) = 8" by (simp only: d) simp
  have p0: "0 \<le> ?p" using assms by simp
  have s0: "0 \<le> ?s" using r0 by simp
  show "\<forall>d\<in>set (buildPhaseDayDistribution cl 8). 0 \<le> d"
    using p0 s0 by (simp only: d) auto
  have xr: "0 \<le> ?x" "?x < 6" by simp_all
  have cnt: "(if 0 < ?x then 1 else 0) + (if 1 < ?x then 1 else 0) + (if 2 < ?x then 1 else 0)
      + (if 3 < ?x then 1 else 0) + (if 4 < ?x then 1 else 0) + (if 5 < ?x then 1 else (0::int))
      = ?x"
    using xr by (rule extras_count)
  have "sum_list (buildPhaseDayDistribution cl 8)
      = 2 * ?p + 6 * ?s + ((if 0 < ?x then 1 else 0) + (if 1 < ?x then 1 else 0)
          + (if 2 < ?x then 1 else 0) + (if 3 < ?x then 1 else 0) + (if 4 < ?x then 1 else 0)
          + (if 5 < ?x then 1 else 0))"
    by (simp only: d) simp
  also have "\<dots> = 2 * ?p + (6 * ?s + ?x)" by (simp only: cnt)
  also have "6 * ?s + ?x = ?r" by simp
  finally show "sum_list (buildPhaseDayDistribution cl 8) = cl" by simp
qed

lemma distribution_props:
  assumes "0 \<le> cl" "1 \<le> n"
  shows "length (buildPhaseDayDistribution cl n) = n"
    and "\<forall>d\<in>set (buildPhaseDayDistribution cl n). 0 \<le> d"
    and "sum_list (buildPhaseDayDistribution cl n) = cl"
  using even_distribution[OF assms] eight_distribution[OF assms(1)]
  by (cases "n = 8"; simp)+

lemma find_phase_finds:
  "cum \<le> day \<Longrightarrow> day < cum + sum_list ds \<Longrightarrow>
   \<exists>i w. find_phase day ds cum k = Some (i, w) \<and> k \<le> i \<and> i < k + length ds
         \<and> 0 \<le> w \<and> w < ds ! (i - k) \<and> cum + sum_list (take (i - k) ds) + w = day"
proof (induction ds arbitrary: cum k)
  case Nil
  then show ?case by simp
next
  case (Cons d ds)
  show ?case
  proof (cases "day < cum + d")
    case True
    with Cons.prems show ?thesis by simp
  next
    case False
    with Cons.prems have "cum + d \<le> day" "day < (cum + d) + sum_list ds" by simp_all
    from Cons.IH[OF this, of "k + 1"]
    obtain i w where iw: "find_phase day ds (cum + d) (k + 1) = Some (i, w)"
      "k + 1 \<le> i" "i < k + 1 + length ds" "0 \<le> w" "w < ds ! (i - (k + 1))"
      "(cum + d) + sum_list (take (i - (k + 1)) ds) + w = day" by blast
    from iw(2) have ik: "i - k = Suc (i - (k + 1))" by simp
    then have "(d # ds) ! (i - k) = ds ! (i - (k + 1))"
      and "sum_list (take (i - k) (d # ds)) = d + sum_list (take (i - (k + 1)) ds)"
      by simp_all
    with iw False show ?thesis by simp
  qed
qed

lemma walk_from_start:
  assumes "0 \<le> day" "day < sum_list ds"
  shows "\<exists>i w. find_phase day ds 0 0 = Some (i, w) \<and> i < length ds \<and> 0 \<le> w \<and> w < ds ! i
           \<and> sum_list (take i ds) + w = day"
  using find_phase_finds[of 0 day ds 0] assms by simp

lemma day_index_floor_mod:
  assumes "0 < len"
  shows "trem (trem (trem (trem x len + len) len + adj) len + len) len = (x + adj) mod len"
proof -
  have "trem (trem (trem (trem x len + len) len + adj) len + len) len
      = (x mod len + adj) mod len"
    using assms by (simp only: double_rem)
  also have "\<dots> = (x + adj) mod len" by (rule mod_add_left_eq)
  finally show ?thesis .
qed

text \<open>
  A moon with a positive finite cycle length, finite day counts and at least one phase,
  in a calendar whose months are defined: \<open>getMoonPhase\<close> takes the main path, and the
  walk locates the phase that holds the day index.
\<close>

lemma getMoonPhase_walk:
  assumes m: "nth_opt (moons cal) k = Some m" and mv: "monthValues cal \<noteq> None"
    and cl: "cycleLength m = Fin cl" "0 < cl" and ps: "phases m = Some ps" "ps \<noteq> []"
  shows "\<exists>r i w. getMoonPhase cal t k (Fin a) (Fin b) = Inr (Some r)
      \<and> phaseIndex r = Some i \<and> i < length ps \<and> mp_name r = phase_name (ps ! i)
      \<and> dayWithinPhase r = Some w \<and> 0 \<le> w
      \<and> w < buildPhaseDayDistribution cl (length ps) ! i
      \<and> phaseDuration r = Some (buildPhaseDayDistribution cl (length ps) ! i)
      \<and> dayInCycle r
          = (a - b + (case cycleDayAdjust m of Fin x \<Rightarrow> x | NonFinite \<Rightarrow> 0)) mod cl
      \<and> 0 \<le> dayInCycle r \<and> dayInCycle r < cl
      \<and> sum_list (take i (buildPhaseDayDistribution cl (length ps))) + w = dayInCycle r"
proof -
  let ?adj = "case cycleDayAdjust m of Fin x \<Rightarrow> x | NonFinite \<Rightarrow> 0"
  let ?d = "trem (trem (trem (trem (a - b) cl + cl) cl + ?adj) cl + cl) cl"
  let ?ds = "buildPhaseDayDistribution cl (length ps)"
  from ps(2) have n: "1 \<le> length ps" by (cases ps) simp_all
  from cl(2) have c0: "0 \<le> cl" by simp
  note dp = distribution_props[OF c0 n]
  have dm: "?d = (a - b + ?adj) mod cl" using cl(2) by (rule day_index_floor_mod)
  have dr: "0 \<le> ?d" "?d < cl" using cl(2) by (simp_all only: dm) simp_all
  from walk_from_start[of ?d ?ds] dr dp(3)
  obtain i w where iw: "find_phase ?d ?ds 0 0 = Some (i, w)" "i < length ?ds" "0 \<le> w"
    "w < ?ds ! i" "sum_list (take i ?ds) + w = ?d" by auto
  from iw(2) dp(1) have il: "i < length ps" by simp
  let ?r = "\<lparr>mp_name = phase_name (ps ! i),
             subPhaseName = getSubPhaseName t (ps ! i) w (Some (?ds ! i)),
             mp_icon = icon_or_empty (ps ! i),
             position = (of_int ?d :: rat) / of_int cl,
             dayInCycle = ?d, phaseIndex = Some i, dayWithinPhase = Some w,
             phaseDuration = Some (?ds ! i)\<rparr>"
  have g: "getMoonPhase cal t k (Fin a) (Fin b) = Inr (Some ?r)"
    using m mv cl il iw(1,2) ps
    by (simp add: getMoonPhase_def js_sub_def Let_def nth_opt_def)
  have "phaseIndex ?r = Some i \<and> i < length ps \<and> mp_name ?r = phase_name (ps ! i)
      \<and> dayWithinPhase ?r = Some w \<and> 0 \<le> w \<and> w < ?ds ! i
      \<and> phaseDuration ?r = Some (?ds ! i)
      \<and> dayInCycle ?r = (a - b + ?adj) mod cl
      \<and> 0 \<le> dayInCycle ?r \<and> dayInCycle ?r < cl
      \<and> sum_list (take i ?ds) + w = dayInCycle ?r"
    using il iw(3,4,5) dr dm by simp
  with g show ?thesis by blast
qed

text \<open>
  C10. For every integer cycle length \<open>\<ge> 0\<close> and every number of phases \<open>\<ge> 1\<close>, the
  distribution has exactly \<open>numPhases\<close> entries, every entry is \<open>\<ge> 0\<close>, and the entries sum
  to the cycle length. So the walk over the cumulative sums finds, for every day index
  \<open>0 \<le> day < cycleLength\<close>, the phase whose span holds that day. In \<open>getMoonPhase\<close>, for
  a moon with that cycle length (positive), \<open>numPhases\<close> phases and finite day counts, the
  day index lies in that range and the result carries the phase the walk found: its
  index is below \<open>numPhases\<close>, the day within the phase is below the phase's duration, and
  the days of the earlier phases plus the day within the phase give the day index.
\<close>

theorem phase_distribution_covers_cycle:
  assumes "0 \<le> cl" "1 \<le> n"
  shows "length (buildPhaseDayDistribution cl n) = n
    \<and> (\<forall>d\<in>set (buildPhaseDayDistribution cl n). 0 \<le> d)
    \<and> sum_list (buildPhaseDayDistribution cl n) = cl
    \<and> (\<forall>day. 0 \<le> day \<and> day < cl \<longrightarrow>
          (\<exists>i w. find_phase day (buildPhaseDayDistribution cl n) 0 0 = Some (i, w)
                 \<and> i < n \<and> 0 \<le> w \<and> w < buildPhaseDayDistribution cl n ! i
                 \<and> sum_list (take i (buildPhaseDayDistribution cl n)) + w = day))
    \<and> (nth_opt (moons cal) k = Some m \<and> monthValues cal \<noteq> None
         \<and> cycleLength m = Fin cl \<and> 0 < cl \<and> phases m = Some ps \<and> length ps = n \<longrightarrow>
          (\<exists>r i w. getMoonPhase cal t k (Fin a) (Fin b) = Inr (Some r)
             \<and> phaseIndex r = Some i \<and> i < n \<and> mp_name r = phase_name (ps ! i)
             \<and> dayWithinPhase r = Some w \<and> 0 \<le> w \<and> w < buildPhaseDayDistribution cl n ! i
             \<and> phaseDuration r = Some (buildPhaseDayDistribution cl n ! i)
             \<and> dayInCycle r
                 = (a - b + (case cycleDayAdjust m of Fin x \<Rightarrow> x | NonFinite \<Rightarrow> 0)) mod cl
             \<and> 0 \<le> dayInCycle r \<and> dayInCycle r < cl
             \<and> sum_list (take i (buildPhaseDayDistribution cl n)) + w = dayInCycle r))"
proof (intro conjI allI impI)
  let ?ds = "buildPhaseDayDistribution cl n"
  note dp = distribution_props[OF assms]
  show "length ?ds = n" by (rule dp(1))
  show "\<forall>d\<in>set ?ds. 0 \<le> d" by (rule dp(2))
  show "sum_list ?ds = cl" by (rule dp(3))
  show "\<exists>i w. find_phase day ?ds 0 0 = Some (i, w) \<and> i < n \<and> 0 \<le> w \<and> w < ?ds ! i
      \<and> sum_list (take i ?ds) + w = day"
    if "0 \<le> day \<and> day < cl" for day
    using walk_from_start[of day ?ds] that dp(1,3) by simp
  assume h: "nth_opt (moons cal) k = Some m \<and> monthValues cal \<noteq> None
         \<and> cycleLength m = Fin cl \<and> 0 < cl \<and> phases m = Some ps \<and> length ps = n"
  with assms(2) have ne: "ps \<noteq> []" by auto
  from h have ln: "length ps = n" by simp
  from h getMoonPhase_walk[of cal k m cl ps t a b, OF _ _ _ _ _ ne]
  show "\<exists>r i w. getMoonPhase cal t k (Fin a) (Fin b) = Inr (Some r)
             \<and> phaseIndex r = Some i \<and> i < n \<and> mp_name r = phase_name (ps ! i)
             \<and> dayWithinPhase r = Some w \<and> 0 \<le> w \<and> w < ?ds ! i
             \<and> phaseDuration r = Some (?ds ! i)
             \<and> dayInCycle r
                 = (a - b + (case cycleDayAdjust m of Fin x \<Rightarrow> x | NonFinite \<Rightarrow> 0)) mod cl
             \<and> 0 \<le> dayInCycle r \<and> dayInCycle r < cl
             \<and> sum_list (take i ?ds) + w = dayInCycle r"
    unfolding ln[symmetric] by blast
qed

theorem phase_distribution_covers_cycle_witness:
  "(0::int) \<le> 20 \<and> (1::nat) \<le> 6
   \<and> buildPhaseDayDistribution 20 6 = [4, 4, 3, 3, 3, 3]
   \<and> length (buildPhaseDayDistribution 20 6) = 6
   \<and> sum_list (buildPhaseDayDistribution 20 6) = 20
   \<and> (0::int) \<le> 9 \<and> (9::int) < 20
   \<and> find_phase 9 (buildPhaseDayDistribution 20 6) 0 0 = Some (2, 1)
   \<and> nth_opt (moons (plain_calendar\<lparr>moons := [luna (Fin 20) (replicate 6 new_moon)]\<rparr>)) 0
       = Some (luna (Fin 20) (replicate 6 new_moon))
   \<and> monthValues (plain_calendar\<lparr>moons := [luna (Fin 20) (replicate 6 new_moon)]\<rparr>) \<noteq> None
   \<and> cycleLength (luna (Fin 20) (replicate 6 new_moon)) = Fin 20 \<and> (0::int) < 20
   \<and> phases (luna (Fin 20) (replicate 6 new_moon)) = Some (replicate 6 new_moon)
   \<and> length (replicate 6 new_moon) = 6
   \<and> getMoonPhase (plain_calendar\<lparr>moons := [luna (Fin 20) (replicate 6 new_moon)]\<rparr>)
        plain_i18n 0 (Fin 54) (Fin 45)
       = Inr (Some \<lparr>mp_name = ''New Moon'', subPhaseName = ''New Moon'', mp_icon = ''new.svg'',
                     position = 9 / 20, dayInCycle = 9, phaseIndex = Some 2,
                     dayWithinPhase = Some 1, phaseDuration = Some 3\<rparr>)"
proof -
  let ?m = "luna (Fin 20) (replicate 6 new_moon)"
  let ?cal = "plain_calendar\<lparr>moons := [?m]\<rparr>"
  have e: "buildPhaseDayDistribution 20 6 = [4, 4, 3, 3, 3, 3]" by code_simp
  have a: "(0::int) \<le> 20" and b: "(1::nat) \<le> 6" by simp_all
  have f: "find_phase 9 [4, 4, 3, 3, 3, 3] 0 0 = Some (2, 1)" by simp
  have m0: "nth_opt (moons ?cal) 0 = Some ?m" by (simp add: nth_opt_def)
  have mv: "monthValues ?cal \<noteq> None" by (simp add: plain_calendar_def)
  have lm: "cycleLength ?m = Fin 20" "phases ?m = Some (replicate 6 new_moon)"
    "cycleDayAdjust ?m = Fin 0"
    by (simp_all add: luna_def)
  have pre: "nth_opt (moons ?cal) 0 = Some ?m \<and> monthValues ?cal \<noteq> None
      \<and> cycleLength ?m = Fin 20 \<and> (0::int) < 20
      \<and> phases ?m = Some (replicate 6 new_moon) \<and> length (replicate 6 new_moon) = 6"
    using m0 mv lm by simp
  note T = phase_distribution_covers_cycle[OF a b, of ?cal 0 ?m "replicate 6 new_moon"
      plain_i18n 54 45]
  from T have l: "length (buildPhaseDayDistribution 20 6) = 6"
    and s: "sum_list (buildPhaseDayDistribution 20 6) = 20" by blast+
  from T pre obtain r i w where r:
    "getMoonPhase ?cal plain_i18n 0 (Fin 54) (Fin 45) = Inr (Some r)"
    "phaseIndex r = Some i" "i < 6" "mp_name r = phase_name (replicate 6 new_moon ! i)"
    "dayWithinPhase r = Some w" "phaseDuration r = Some (buildPhaseDayDistribution 20 6 ! i)"
    "dayInCycle r = (54 - 45 + (case cycleDayAdjust ?m of Fin x \<Rightarrow> x | NonFinite \<Rightarrow> 0)) mod 20"
    "sum_list (take i (buildPhaseDayDistribution 20 6)) + w = dayInCycle r"
    "0 \<le> w" "w < buildPhaseDayDistribution 20 6 ! i"
    by blast
  have g: "getMoonPhase ?cal plain_i18n 0 (Fin 54) (Fin 45)
       = Inr (Some \<lparr>mp_name = ''New Moon'', subPhaseName = ''New Moon'', mp_icon = ''new.svg'',
                     position = 9 / 20, dayInCycle = 9, phaseIndex = Some 2,
                     dayWithinPhase = Some 1, phaseDuration = Some 3\<rparr>)"
    by code_simp
  from e f l s m0 mv lm g show ?thesis by simp
qed

lemma moon_fallback_first:
  "phases m = Some (p # ps) \<Longrightarrow> moon_fallback m =
     Some \<lparr>mp_name = phase_name p, subPhaseName = phase_name p, mp_icon = icon_or_empty p,
           position = 0, dayInCycle = 0, phaseIndex = None, dayWithinPhase = None,
           phaseDuration = None\<rparr>"
  by (simp add: moon_fallback_def nth_opt_def)

lemma moon_fallback_none:
  "phases m = None \<or> phases m = Some [] \<Longrightarrow> moon_fallback m = None"
  by (auto simp: moon_fallback_def nth_opt_def)

lemma degenerate_takes_guard:
  assumes "nth_opt (moons cal) k = Some m" "monthValues cal \<noteq> None"
    and "js_sub cur ref = NonFinite \<or> cycleLength m = NonFinite
         \<or> (\<exists>len. cycleLength m = Fin len \<and> len \<le> 0)"
  shows "getMoonPhase cal t k cur ref = Inr (moon_fallback m)"
  using assms by (auto simp: getMoonPhase_def split: jsnum.splits)

lemma empty_phases_null:
  assumes "nth_opt (moons cal) k = Some m" "monthValues cal \<noteq> None" "phases m = Some []"
  shows "getMoonPhase cal t k cur ref = Inr None"
  using assms
  by (auto simp: getMoonPhase_def moon_fallback_none nth_opt_def Let_def split: jsnum.splits)

text \<open>
  C7 (as amended). For a moon of the calendar. When the months of the calendar are not
  defined, \<open>getMoonPhase\<close> returns null before anything else. With the months defined:
  when the cycle length is \<open>\<le> 0\<close> or not finite, or the days since the reference date
  are not finite, \<open>getMoonPhase\<close> does not raise; it returns the moon's first phase with
  \<open>position = 0\<close> and \<open>dayInCycle = 0\<close> when the moon has at least one phase, and null when
  its phases are empty or absent. A moon with an empty array of phases gets null
  whatever the numbers are. Nothing is said here of a moon without an array of phases
  whose numbers are valid.
\<close>

theorem getMoonPhase_degenerate_input:
  assumes "nth_opt (moons cal) k = Some m"
  shows "(monthValues cal = None \<longrightarrow> getMoonPhase cal t k cur ref = Inr None)
    \<and> (monthValues cal \<noteq> None
        \<and> (js_sub cur ref = NonFinite \<or> cycleLength m = NonFinite
            \<or> (\<exists>len. cycleLength m = Fin len \<and> len \<le> 0)) \<longrightarrow>
          (phases m = Some (p # ps) \<longrightarrow>
             getMoonPhase cal t k cur ref =
               Inr (Some \<lparr>mp_name = phase_name p, subPhaseName = phase_name p,
                           mp_icon = icon_or_empty p, position = 0, dayInCycle = 0,
                           phaseIndex = None, dayWithinPhase = None, phaseDuration = None\<rparr>))
          \<and> (phases m = None \<or> phases m = Some [] \<longrightarrow>
               getMoonPhase cal t k cur ref = Inr None))
    \<and> (monthValues cal \<noteq> None \<and> phases m = Some [] \<longrightarrow>
          getMoonPhase cal t k cur ref = Inr None)"
proof (intro conjI impI)
  assume "monthValues cal = None"
  with assms show "getMoonPhase cal t k cur ref = Inr None"
    by (simp add: getMoonPhase_def)
next
  assume d: "monthValues cal \<noteq> None
        \<and> (js_sub cur ref = NonFinite \<or> cycleLength m = NonFinite
            \<or> (\<exists>len. cycleLength m = Fin len \<and> len \<le> 0))"
  then have g: "getMoonPhase cal t k cur ref = Inr (moon_fallback m)"
    using assms by (intro degenerate_takes_guard) simp_all
  show "getMoonPhase cal t k cur ref =
               Inr (Some \<lparr>mp_name = phase_name p, subPhaseName = phase_name p,
                           mp_icon = icon_or_empty p, position = 0, dayInCycle = 0,
                           phaseIndex = None, dayWithinPhase = None, phaseDuration = None\<rparr>)"
    if "phases m = Some (p # ps)"
    using that by (simp only: g moon_fallback_first)
  show "getMoonPhase cal t k cur ref = Inr None" if "phases m = None \<or> phases m = Some []"
    using that by (simp only: g moon_fallback_none)
next
  assume "monthValues cal \<noteq> None \<and> phases m = Some []"
  then have "monthValues cal \<noteq> None" and "phases m = Some []" by blast+
  with assms show "getMoonPhase cal t k cur ref = Inr None"
    by (rule empty_phases_null)
qed

theorem getMoonPhase_degenerate_input_witness:
  "nth_opt (moons (plain_calendar\<lparr>moons := [luna (Fin 0) [new_moon], luna (Fin 29) []]\<rparr>)) 0
     = Some (luna (Fin 0) [new_moon])
   \<and> nth_opt (moons (plain_calendar\<lparr>moons := [luna (Fin 0) [new_moon], luna (Fin 29) []]\<rparr>)) 1
     = Some (luna (Fin 29) [])
   \<and> monthValues (plain_calendar\<lparr>moons := [luna (Fin 0) [new_moon], luna (Fin 29) []]\<rparr>) \<noteq> None
   \<and> phases (luna (Fin 0) [new_moon]) = Some (new_moon # [])
   \<and> cycleLength (luna (Fin 0) [new_moon]) = Fin 0 \<and> (0::int) \<le> 0
   \<and> phases (luna (Fin 29) []) = Some []
   \<and> js_sub NonFinite (Fin 0) = NonFinite
   \<and> getMoonPhase (plain_calendar\<lparr>moons := [luna (Fin 0) [new_moon], luna (Fin 29) []]\<rparr>)
         plain_i18n 0 (Fin 10) (Fin 0)
       = Inr (Some \<lparr>mp_name = ''New Moon'', subPhaseName = ''New Moon'', mp_icon = ''new.svg'',
                     position = 0, dayInCycle = 0, phaseIndex = None, dayWithinPhase = None,
                     phaseDuration = None\<rparr>)
   \<and> getMoonPhase (plain_calendar\<lparr>moons := [luna (Fin 0) [new_moon], luna (Fin 29) []]\<rparr>)
         plain_i18n 1 NonFinite (Fin 0) = Inr None
   \<and> getMoonPhase (plain_calendar\<lparr>moons := [luna (Fin 0) [new_moon], luna (Fin 29) []]\<rparr>)
         plain_i18n 1 (Fin 10) (Fin 0) = Inr None
   \<and> monthValues (plain_calendar\<lparr>monthValues := None, moons := [luna (Fin 0) [new_moon]]\<rparr>) = None
   \<and> getMoonPhase (plain_calendar\<lparr>monthValues := None, moons := [luna (Fin 0) [new_moon]]\<rparr>)
         plain_i18n 0 (Fin 10) (Fin 0) = Inr None"
proof -
  let ?cal = "plain_calendar\<lparr>moons := [luna (Fin 0) [new_moon], luna (Fin 29) []]\<rparr>"
  let ?nomonths = "plain_calendar\<lparr>monthValues := None, moons := [luna (Fin 0) [new_moon]]\<rparr>"
  have m0: "nth_opt (moons ?cal) 0 = Some (luna (Fin 0) [new_moon])"
    and m1: "nth_opt (moons ?cal) 1 = Some (luna (Fin 29) [])"
    and m2: "nth_opt (moons ?nomonths) 0 = Some (luna (Fin 0) [new_moon])"
    by (simp_all add: nth_opt_def)
  have mv: "monthValues ?cal \<noteq> None" by (simp add: plain_calendar_def)
  have nm: "monthValues ?nomonths = None" by simp
  have p0: "phases (luna (Fin 0) [new_moon]) = Some (new_moon # [])"
    and l0: "cycleLength (luna (Fin 0) [new_moon]) = Fin 0"
    and p1: "phases (luna (Fin 29) []) = Some []"
    by (simp_all add: luna_def)
  have nf: "js_sub NonFinite (Fin 0) = NonFinite" by (simp add: js_sub_def)
  have d0: "monthValues ?cal \<noteq> None
      \<and> (js_sub (Fin 10) (Fin 0) = NonFinite \<or> cycleLength (luna (Fin 0) [new_moon]) = NonFinite
          \<or> (\<exists>len. cycleLength (luna (Fin 0) [new_moon]) = Fin len \<and> len \<le> 0))"
    using mv l0 by simp
  have d1: "monthValues ?cal \<noteq> None
      \<and> (js_sub NonFinite (Fin 0) = NonFinite \<or> cycleLength (luna (Fin 29) []) = NonFinite
          \<or> (\<exists>len. cycleLength (luna (Fin 29) []) = Fin len \<and> len \<le> 0))"
    using mv nf by simp
  have r0: "getMoonPhase ?cal plain_i18n 0 (Fin 10) (Fin 0) =
      Inr (Some \<lparr>mp_name = phase_name new_moon, subPhaseName = phase_name new_moon,
            mp_icon = icon_or_empty new_moon, position = 0, dayInCycle = 0,
            phaseIndex = None, dayWithinPhase = None, phaseDuration = None\<rparr>)"
    using getMoonPhase_degenerate_input[OF m0, of plain_i18n "Fin 10" "Fin 0" new_moon "[]"]
      p0 d0 by blast
  have r1: "getMoonPhase ?cal plain_i18n 1 NonFinite (Fin 0) = Inr None"
    using getMoonPhase_degenerate_input[OF m1, of plain_i18n NonFinite "Fin 0" new_moon "[]"]
      p1 d1 by blast
  have r2: "getMoonPhase ?cal plain_i18n 1 (Fin 10) (Fin 0) = Inr None"
    using getMoonPhase_degenerate_input[OF m1, of plain_i18n "Fin 10" "Fin 0" new_moon "[]"]
      p1 mv by blast
  have r3: "getMoonPhase ?nomonths plain_i18n 0 (Fin 10) (Fin 0) = Inr None"
    using getMoonPhase_degenerate_input[OF m2, of plain_i18n "Fin 10" "Fin 0" new_moon "[]"]
      nm by blast
  have n: "phase_name new_moon = ''New Moon''" "icon_or_empty new_moon = ''new.svg''"
    by (simp_all add: new_moon_def icon_or_empty_def)
  from m0 m1 mv p0 l0 p1 nf r0 r1 r2 r3 nm show ?thesis by (simp only: n) simp
qed

text \<open>
  A moon with an empty array of phases has no first phase to fall back to: the result
  is null, with a cycle length of \<open>0\<close> as with a cycle length of \<open>29\<close>.
\<close>

theorem getMoonPhase_no_phases_counterexample:
  "getMoonPhase (plain_calendar\<lparr>moons := [luna (Fin 0) []]\<rparr>) plain_i18n 0 (Fin 10) (Fin 0)
     = Inr None
   \<and> getMoonPhase (plain_calendar\<lparr>moons := [luna (Fin 29) []]\<rparr>) plain_i18n 0 (Fin 10) (Fin 0)
       = Inr None"
  by code_simp

text \<open>
  A moon without an array of phases: the guard answers null for a cycle length of \<open>0\<close>,
  and the unguarded read of the main path raises for a cycle length of \<open>29\<close>.
\<close>

lemma getMoonPhase_absent_phases:
  "getMoonPhase (plain_calendar\<lparr>moons := [(luna (Fin 0) [])\<lparr>phases := None\<rparr>]\<rparr>)
      plain_i18n 0 (Fin 10) (Fin 0) = Inr None
   \<and> getMoonPhase (plain_calendar\<lparr>moons := [(luna (Fin 29) [])\<lparr>phases := None\<rparr>]\<rparr>)
      plain_i18n 0 (Fin 10) (Fin 0) = Inl TypeError"
  by code_simp

section \<open>Daylight results\<close>

lemma static_daylight_half:
  "daylight cal = None \<or> (\<exists>d. daylight cal = Some d \<and> \<not> enabled d) \<Longrightarrow>
   getDaylightHoursForDay cal c = Inr (Some (hoursPerDay cal / 2))"
  by (auto simp: getDaylightHoursForDay_def)

lemma half_day_sun:
  assumes "getDaylightHoursForDay cal c = Inr (Some (hoursPerDay cal / 2))"
  shows "sunrise cal c = Inr (Some (hoursPerDay cal / 4))"
    and "sunset cal c = Inr (Some (3 * hoursPerDay cal / 4))"
    and "daylightHours cal c = Inr (Some (hoursPerDay cal / 2))"
proof -
  show r: "sunrise cal c = Inr (Some (hoursPerDay cal / 4))"
    by (simp add: sunrise_def assms Let_def)
  show s: "sunset cal c = Inr (Some (3 * hoursPerDay cal / 4))"
    by (simp add: sunset_def assms Let_def)
  show "daylightHours cal c = Inr (Some (hoursPerDay cal / 2))"
    by (simp add: daylightHours_def r s)
qed

lemma half_day_progressNight:
  assumes "getDaylightHoursForDay cal c = Inr (Some (hoursPerDay cal / 2))"
    and "0 < hoursPerDay cal" and "hoursOfDay cal c = Some h"
  shows "progressNight cal c =
     Inr (Some (((if h < hoursPerDay cal / 2 then h + hoursPerDay cal else h)
                 - 3 * hoursPerDay cal / 4) / (hoursPerDay cal / 2)))"
  using assms(2,3) by (simp add: progressNight_def half_day_sun[OF assms(1)] Let_def)

text \<open>
  C2 (as amended). \<open>progressNight\<close> is written for a night that lasts half the day. When
  the daylight of the day lasts exactly half of \<open>hoursPerDay\<close>, which is always so in static
  mode, sunrise is at a quarter and sunset at three quarters of the day, and for every
  hour of the day in the night span (at or after sunset, or before sunrise)
  \<open>progressNight\<close> returns a value in \<open>[0, 1]\<close>: the position of the hour between sunset and
  the next sunrise, the hour being shifted up by \<open>hoursPerDay\<close> exactly when it falls before
  sunset.
\<close>

theorem progressNight_half_day:
  "(daylight cal = None \<or> (\<exists>d. daylight cal = Some d \<and> \<not> enabled d) \<longrightarrow>
      getDaylightHoursForDay cal c = Inr (Some (hoursPerDay cal / 2)))
   \<and> (getDaylightHoursForDay cal c = Inr (Some (hoursPerDay cal / 2))
        \<and> 0 < hoursPerDay cal \<and> hoursOfDay cal c = Some h \<and> 0 \<le> h \<and> h < hoursPerDay cal
        \<longrightarrow>
        sunrise cal c = Inr (Some (hoursPerDay cal / 4))
        \<and> sunset cal c = Inr (Some (3 * hoursPerDay cal / 4))
        \<and> (3 * hoursPerDay cal / 4 \<le> h \<or> h < hoursPerDay cal / 4 \<longrightarrow>
             (let shifted = (if h < 3 * hoursPerDay cal / 4 then h + hoursPerDay cal else h);
                  p = (shifted - 3 * hoursPerDay cal / 4)
                        / ((hoursPerDay cal / 4 + hoursPerDay cal) - 3 * hoursPerDay cal / 4)
              in progressNight cal c = Inr (Some p) \<and> 0 \<le> p \<and> p \<le> 1)))"
proof (intro conjI impI)
  assume "daylight cal = None \<or> (\<exists>d. daylight cal = Some d \<and> \<not> enabled d)"
  then show "getDaylightHoursForDay cal c = Inr (Some (hoursPerDay cal / 2))"
    by (rule static_daylight_half)
next
  assume a: "getDaylightHoursForDay cal c = Inr (Some (hoursPerDay cal / 2))
        \<and> 0 < hoursPerDay cal \<and> hoursOfDay cal c = Some h \<and> 0 \<le> h \<and> h < hoursPerDay cal"
  then show "sunrise cal c = Inr (Some (hoursPerDay cal / 4))"
    and "sunset cal c = Inr (Some (3 * hoursPerDay cal / 4))"
    by (simp_all add: half_day_sun)
  assume n: "3 * hoursPerDay cal / 4 \<le> h \<or> h < hoursPerDay cal / 4"
  let ?H = "hoursPerDay cal"
  from a have H: "0 < ?H" and h: "0 \<le> h" "h < ?H" by simp_all
  from a have p: "progressNight cal c =
     Inr (Some (((if h < ?H / 2 then h + ?H else h) - 3 * ?H / 4) / (?H / 2)))"
    by (intro half_day_progressNight) simp_all
  from n H h have sh: "(if h < 3 * ?H / 4 then h + ?H else h) = (if h < ?H / 2 then h + ?H else h)"
    by auto
  have den: "(?H / 4 + ?H) - 3 * ?H / 4 = ?H / 2" by simp
  let ?p = "((if h < ?H / 2 then h + ?H else h) - 3 * ?H / 4) / (?H / 2)"
  have "0 \<le> ?p \<and> ?p \<le> 1"
  proof (cases "h < ?H / 4")
    case True
    with H h have "?p = (h + ?H / 4) / (?H / 2)" by (simp add: field_simps)
    moreover from True H h have "0 \<le> h + ?H / 4" "h + ?H / 4 \<le> ?H / 2" by simp_all
    ultimately show ?thesis using H by (simp add: field_simps)
  next
    case False
    with n have ge: "3 * ?H / 4 \<le> h" by simp
    with H have "\<not> h < ?H / 2" by simp
    then have "?p = (h - 3 * ?H / 4) / (?H / 2)" by simp
    moreover from ge h have "0 \<le> h - 3 * ?H / 4" "h - 3 * ?H / 4 \<le> ?H / 2" by simp_all
    ultimately show ?thesis using H by (simp add: field_simps)
  qed
  then show "let shifted = (if h < 3 * ?H / 4 then h + ?H else h);
                  p = (shifted - 3 * ?H / 4) / ((?H / 4 + ?H) - 3 * ?H / 4)
              in progressNight cal c = Inr (Some p) \<and> 0 \<le> p \<and> p \<le> 1"
    unfolding Let_def sh den p by simp
qed

theorem progressNight_half_day_witness:
  "daylight plain_calendar = None
   \<and> getDaylightHoursForDay plain_calendar (midnight\<lparr>c_hour := 3\<rparr>) = Inr (Some 12)
   \<and> 0 < hoursPerDay plain_calendar
   \<and> hoursOfDay plain_calendar (midnight\<lparr>c_hour := 3\<rparr>) = Some 3
   \<and> sunrise plain_calendar (midnight\<lparr>c_hour := 3\<rparr>) = Inr (Some 6)
   \<and> sunset plain_calendar (midnight\<lparr>c_hour := 3\<rparr>) = Inr (Some 18)
   \<and> (3::real) < 6
   \<and> progressNight plain_calendar (midnight\<lparr>c_hour := 3\<rparr>) = Inr (Some (3 / 4))"
proof -
  let ?c = "midnight\<lparr>c_hour := 3\<rparr>"
  note T = progressNight_half_day[of plain_calendar ?c 3]
  have dl: "daylight plain_calendar = None" and hpd: "hoursPerDay plain_calendar = 24"
    by (simp_all add: plain_calendar_def)
  have h: "hoursOfDay plain_calendar ?c = Some 3"
    by (simp add: hoursOfDay_def plain_calendar_def midnight_def Let_def)
  from T dl have g: "getDaylightHoursForDay plain_calendar ?c
      = Inr (Some (hoursPerDay plain_calendar / 2))" by blast
  have pre: "getDaylightHoursForDay plain_calendar ?c = Inr (Some (hoursPerDay plain_calendar / 2))
      \<and> 0 < hoursPerDay plain_calendar \<and> hoursOfDay plain_calendar ?c = Some 3
      \<and> (0::real) \<le> 3 \<and> 3 < hoursPerDay plain_calendar"
    using g h by (simp add: hpd)
  from T pre have r: "sunrise plain_calendar ?c = Inr (Some (hoursPerDay plain_calendar / 4))"
    and s: "sunset plain_calendar ?c = Inr (Some (3 * hoursPerDay plain_calendar / 4))"
    and n: "3 * hoursPerDay plain_calendar / 4 \<le> 3 \<or> 3 < hoursPerDay plain_calendar / 4 \<longrightarrow>
             (let shifted = (if 3 < 3 * hoursPerDay plain_calendar / 4
                             then 3 + hoursPerDay plain_calendar else 3);
                  p = (shifted - 3 * hoursPerDay plain_calendar / 4)
                        / ((hoursPerDay plain_calendar / 4 + hoursPerDay plain_calendar)
                           - 3 * hoursPerDay plain_calendar / 4)
              in progressNight plain_calendar ?c = Inr (Some p) \<and> 0 \<le> p \<and> p \<le> 1)"
    by blast+
  from n have p: "progressNight plain_calendar ?c = Inr (Some (3 / 4))"
    by (simp add: hpd Let_def)
  from dl g h r s p show ?thesis by (simp add: hpd)
qed

text \<open>
  Dynamic daylight on the winter solstice: 8 hours of daylight in a 24 hour day, sunrise
  at 8 and sunset at 16. The hour 7 is in the night, one hour before sunrise, and
  \<open>progressNight\<close> returns \<open>15 / 8\<close>, which is above \<open>1\<close>; the position in the 16 hour
  night is \<open>15 / 16\<close>.
\<close>

theorem progressNight_dynamic_counterexample:
  "sunrise (plain_calendar\<lparr>daylight := Some solstices\<rparr>) (midnight\<lparr>c_hour := 7\<rparr>) = Inr (Some 8)
   \<and> sunset (plain_calendar\<lparr>daylight := Some solstices\<rparr>) (midnight\<lparr>c_hour := 7\<rparr>) = Inr (Some 16)
   \<and> hoursOfDay (plain_calendar\<lparr>daylight := Some solstices\<rparr>) (midnight\<lparr>c_hour := 7\<rparr>) = Some 7
   \<and> progressNight (plain_calendar\<lparr>daylight := Some solstices\<rparr>) (midnight\<lparr>c_hour := 7\<rparr>)
       = Inr (Some (15 / 8))"
proof -
  let ?cal = "plain_calendar\<lparr>daylight := Some solstices\<rparr>"
  let ?c = "midnight\<lparr>c_hour := 7\<rparr>"
  have g: "getDaylightHoursForDay ?cal ?c = Inr (Some 8)"
    by (simp add: getDaylightHoursForDay_def plain_calendar_def midnight_def solstices_def
        dayOfYear_def js_rem_def trem_def Let_def)
  have hpd: "hoursPerDay ?cal = 24" by (simp add: plain_calendar_def)
  have r: "sunrise ?cal ?c = Inr (Some 8)" by (simp add: sunrise_def g hpd Let_def)
  have s: "sunset ?cal ?c = Inr (Some 16)" by (simp add: sunset_def g hpd Let_def)
  have h: "hoursOfDay ?cal ?c = Some 7"
    by (simp add: hoursOfDay_def plain_calendar_def midnight_def Let_def)
  have d: "daylightHours ?cal ?c = Inr (Some 8)" by (simp add: daylightHours_def r s)
  have p: "progressNight ?cal ?c = Inr (Some (15 / 8))"
    by (simp add: progressNight_def d s h hpd Let_def)
  from r s h p show ?thesis by simp
qed

end
